theory Spec2Isabelle
  imports
    Complex_Main
    "HOL-Library.AList"
    "HOL-Library.Char_ord"
    "HOL-Library.List_Lexorder"
    "HOL-Library.Product_Lexorder"
begin

section \<open>The graph container\<close>

text \<open>
  The program \<^verbatim>\<open>marvel_stats.py\<close> reads a GraphML file, rebuilds it as a simple
  undirected \<^verbatim>\<open>networkx.Graph\<close>, prints statistics and optionally draws two images.
  Node identifiers are strings. An attribute dictionary is never iterated by the program,
  so it is a map from attribute names to values; the value type is left open.
  The two dictionaries of a \<^verbatim>\<open>networkx.Graph\<close>, \<^verbatim>\<open>_node\<close> and \<^verbatim>\<open>_adj\<close>, are iterated
  (node count, degrees, drawing), so they are association lists in insertion order,
  with \<open>AList.update\<close> for item assignment: an existing key keeps its place, a new key is
  appended.
\<close>

type_synonym 'v attrs = "string \<rightharpoonup> 'v"

text \<open>What the program reads off the parsed graph: the items of
  \<^verbatim>\<open>Graw.nodes(data=True)\<close> and of \<^verbatim>\<open>Graw.edges(data=True)\<close>, in iteration order.
  A directed raw graph lists both directions, a multigraph lists parallel edges.\<close>

record 'v raw_graph =
  raw_nodes :: "(string \<times> 'v attrs) list"
  raw_edges :: "(string \<times> string \<times> 'v attrs) list"

record 'v nx_graph =
  g_node :: "(string \<times> 'v attrs) list"
  g_adj :: "(string \<times> (string \<times> 'v attrs) list) list"

text \<open>\<^verbatim>\<open>nx.Graph()\<close>\<close>

definition empty_graph :: "'v nx_graph" where
  "empty_graph = \<lparr>g_node = [], g_adj = []\<rparr>"

definition has_node :: "'v nx_graph \<Rightarrow> string \<Rightarrow> bool" where
  "has_node G n = (n \<in> fst ` set (g_node G))"

definition node_data :: "'v nx_graph \<Rightarrow> string \<Rightarrow> 'v attrs option" where
  "node_data G n = map_of (g_node G) n"

definition adj_get ::
  "(string \<times> (string \<times> 'v attrs) list) list \<Rightarrow> string \<Rightarrow> (string \<times> 'v attrs) list" where
  "adj_get adj u = (case map_of adj u of None \<Rightarrow> [] | Some nb \<Rightarrow> nb)"

definition nbrs :: "'v nx_graph \<Rightarrow> string \<Rightarrow> (string \<times> 'v attrs) list" where
  "nbrs G u = adj_get (g_adj G) u"

definition edge_data :: "'v nx_graph \<Rightarrow> string \<Rightarrow> string \<Rightarrow> 'v attrs option" where
  "edge_data G u v = map_of (nbrs G u) v"

definition or_empty :: "'v attrs option \<Rightarrow> 'v attrs" where
  "or_empty d = (case d of None \<Rightarrow> Map.empty | Some a \<Rightarrow> a)"

text \<open>The block \<^verbatim>\<open>if n not in self._node: self._adj[n] = {}; self._node[n] = {}\<close>
  shared by \<^verbatim>\<open>add_nodes_from\<close> and \<^verbatim>\<open>add_edge\<close>.\<close>

definition new_node :: "'v nx_graph \<Rightarrow> string \<Rightarrow> 'v nx_graph" where
  "new_node G n =
     (if has_node G n then G
      else G\<lparr>g_adj := AList.update n [] (g_adj G),
             g_node := AList.update n Map.empty (g_node G)\<rparr>)"

text \<open>One round of \<^verbatim>\<open>Graph.add_nodes_from\<close> on a pair \<^verbatim>\<open>(n, ndict)\<close>: the node is created
  when it is new, then \<^verbatim>\<open>self._node[n].update(ndict)\<close>.\<close>

fun add_node :: "'v nx_graph \<Rightarrow> string \<times> 'v attrs \<Rightarrow> 'v nx_graph" where
  "add_node G (n, ndict) =
     (let G' = new_node G n
      in G'\<lparr>g_node := AList.update n (or_empty (node_data G' n) ++ ndict) (g_node G')\<rparr>)"

definition add_nodes_from :: "'v nx_graph \<Rightarrow> (string \<times> 'v attrs) list \<Rightarrow> 'v nx_graph" where
  "add_nodes_from G ns = fold (\<lambda>nd H. add_node H nd) ns G"

text \<open>\<^verbatim>\<open>self._adj[u][v] = datadict\<close>\<close>

definition set_adj ::
  "(string \<times> (string \<times> 'v attrs) list) list \<Rightarrow> string \<Rightarrow> string \<Rightarrow> 'v attrs
     \<Rightarrow> (string \<times> (string \<times> 'v attrs) list) list" where
  "set_adj adj u v d = AList.update u (AList.update v d (adj_get adj u)) adj"

text \<open>\<^verbatim>\<open>Graph.add_edge(u, v, **attr)\<close>: both endpoints are created when new; the edge's
  dictionary is the one already stored under \<^verbatim>\<open>_adj[u][v]\<close> (a fresh one when there is
  none), updated with \<^verbatim>\<open>attr\<close>, and stored under both \<^verbatim>\<open>_adj[u][v]\<close> and \<^verbatim>\<open>_adj[v][u]\<close>.
  Python stores one shared dictionary object in both places; nothing mutates it except
  this function, through \<^verbatim>\<open>_adj[u][v]\<close>, so storing the value twice is the same as long
  as the adjacency is symmetric (lemma \<open>graph_inv_simplify\<close>).\<close>

definition add_edge :: "'v nx_graph \<Rightarrow> string \<Rightarrow> string \<Rightarrow> 'v attrs \<Rightarrow> 'v nx_graph" where
  "add_edge G u v attr =
     (let G1 = new_node G u;
          G2 = new_node G1 v;
          datadict = or_empty (edge_data G2 u v) ++ attr
      in G2\<lparr>g_adj := set_adj (set_adj (g_adj G2) u v datadict) v u datadict\<rparr>)"

text \<open>Lines 40 to 44 of \<^verbatim>\<open>main\<close>: copy the nodes, then insert every raw edge whose
  endpoints differ.\<close>

definition add_edges :: "'v nx_graph \<Rightarrow> (string \<times> string \<times> 'v attrs) list \<Rightarrow> 'v nx_graph" where
  "add_edges G es = fold (\<lambda>(u, v, data) H. if u \<noteq> v then add_edge H u v data else H) es G"

definition simplify :: "'v raw_graph \<Rightarrow> 'v nx_graph" where
  "simplify Graw = add_edges (add_nodes_from empty_graph (raw_nodes Graw)) (raw_edges Graw)"

text \<open>The attribute dictionaries that the loop inserts for the unordered pair \<open>{u, v}\<close>,
  in order of insertion.\<close>

definition inserted :: "(string \<times> string \<times> 'v attrs) list \<Rightarrow> string \<Rightarrow> string \<Rightarrow> 'v attrs list" where
  "inserted es u v =
     map (\<lambda>(x, y, d). d)
       (filter (\<lambda>(x, y, d). x \<noteq> y \<and> ((x = u \<and> y = v) \<or> (x = v \<and> y = u))) es)"

text \<open>The invariant of the container: the two dictionaries have the same keys, no key
  occurs twice in any of them, and the adjacency is symmetric.\<close>

definition graph_inv :: "'v nx_graph \<Rightarrow> bool" where
  "graph_inv G \<longleftrightarrow>
     fst ` set (g_adj G) = fst ` set (g_node G) \<and>
     distinct (map fst (g_node G)) \<and>
     distinct (map fst (g_adj G)) \<and>
     (\<forall>u. distinct (map fst (nbrs G u))) \<and>
     (\<forall>u v. edge_data G u v = edge_data G v u)"


section \<open>Rankings\<close>

text \<open>The slice \<^verbatim>\<open>xs[:k]\<close>: a negative \<open>k\<close> counts from the end, and a bound outside
  the list is clipped.\<close>

definition slice_to :: "'a list \<Rightarrow> int \<Rightarrow> 'a list" where
  "slice_to xs k = (if 0 \<le> k then take (nat k) xs else take (nat (int (length xs) + k)) xs)"

text \<open>The sort key \<^verbatim>\<open>lambda x: (-x[1], x[0])\<close>. Tuples compare lexicographically and
  strings compare lexicographically by character code, which are the orders of
  \<open>Product_Lexorder\<close> and \<open>List_Lexorder\<close>. Scores are numbers of a linearly ordered
  group (degrees are integers, centralities are fractions).\<close>

definition rank_key :: "string \<times> 'a \<Rightarrow> ('a::linordered_ab_group_add) \<times> string" where
  "rank_key x = (- snd x, fst x)"

text \<open>\<^verbatim>\<open>top_n(d, k)\<close>, with \<open>d\<close> given by its items. \<^verbatim>\<open>sorted\<close> is a stable sort, and so is
  \<open>sort_key\<close>.\<close>

definition top_n :: "(string \<times> ('a::linordered_ab_group_add)) list \<Rightarrow> int \<Rightarrow> (string \<times> 'a) list" where
  "top_n d k = slice_to (sort_key rank_key d) k"

text \<open>The order of a ranking: a higher score first, and among equal scores the smaller
  identifier first.\<close>

definition ranks_before :: "string \<times> ('a::linordered_ab_group_add) \<Rightarrow> string \<times> 'a \<Rightarrow> bool" where
  "ranks_before x y \<longleftrightarrow> snd y < snd x \<or> (snd x = snd y \<and> fst x < fst y)"

text \<open>The degrees of the path \<open>A - B - C - D\<close>.\<close>

definition ex_scores :: "(string \<times> int) list" where
  "ex_scores = [(''A'', 1), (''B'', 2), (''C'', 2), (''D'', 1)]"

section \<open>Statistics\<close>

text \<open>\<^verbatim>\<open>G.number_of_nodes()\<close> is \<^verbatim>\<open>len(self._node)\<close>.\<close>

definition number_of_nodes :: "'v nx_graph \<Rightarrow> nat" where
  "number_of_nodes G = length (g_node G)"

text \<open>\<^verbatim>\<open>G.degree()\<close> yields, for every key \<open>n\<close> of \<^verbatim>\<open>_adj\<close>, the pair
  \<^verbatim>\<open>(n, len(nbrs) + (n in nbrs))\<close>: a self-loop counts twice.\<close>

definition degree_of :: "string \<Rightarrow> (string \<times> 'v attrs) list \<Rightarrow> int" where
  "degree_of n nb = int (length nb) + (if n \<in> fst ` set nb then 1 else 0)"

definition degree :: "'v nx_graph \<Rightarrow> (string \<times> int) list" where
  "degree G = map (\<lambda>(n, nb). (n, degree_of n nb)) (g_adj G)"

text \<open>\<^verbatim>\<open>G.number_of_edges()\<close> is \<^verbatim>\<open>G.size()\<close>, that is
  \<^verbatim>\<open>sum(d for v, d in self.degree()) // 2\<close>.\<close>

definition number_of_edges :: "'v nx_graph \<Rightarrow> int" where
  "number_of_edges G = sum_list (map snd (degree G)) div 2"

text \<open>\<^verbatim>\<open>nx.density(G)\<close> for an undirected graph:
  \<^verbatim>\<open>if m == 0 or n <= 1: return 0\<close>, else \<^verbatim>\<open>d = m / (n * (n - 1)); d *= 2\<close>.
  The quotient is taken in exact rational arithmetic; the rounding of the binary
  floating-point division is not part of the model.\<close>

definition density :: "'v nx_graph \<Rightarrow> rat" where
  "density G =
     (let n = int (number_of_nodes G); m = number_of_edges G
      in if m = 0 \<or> n \<le> 1 then 0 else of_int m / of_int (n * (n - 1)) * 2)"

text \<open>Exceptions carry their class and their message. \<open>PyException\<close> stands for every
  exception outside the hierarchy of \<^verbatim>\<open>NetworkXException\<close>.\<close>

datatype exn_class =
  NetworkXError | NetworkXPointlessConcept | NetworkXNotImplemented
  | PowerIterationFailedConvergence | PyException

datatype exn = Exn (cls: exn_class) (msg: string)

text \<open>\<^verbatim>\<open>except nx.NetworkXException\<close> and \<^verbatim>\<open>except nx.NetworkXError\<close>\<close>

fun is_NetworkXException :: "exn_class \<Rightarrow> bool" where
  "is_NetworkXException PyException = False"
| "is_NetworkXException c = True"

fun is_NetworkXError :: "exn_class \<Rightarrow> bool" where
  "is_NetworkXError NetworkXError = True"
| "is_NetworkXError c = False"

text \<open>The set of nodes that the breadth-first search of \<^verbatim>\<open>nx.is_connected\<close> sees from
  \<open>s\<close>: the neighbours of the seen nodes are added, once per node of the graph, which
  is as often as a new node can appear.\<close>

definition bfs_step :: "'v nx_graph \<Rightarrow> string list \<Rightarrow> string list" where
  "bfs_step G seen = remdups (seen @ concat (map (\<lambda>v. map fst (nbrs G v)) seen))"

definition plain_bfs :: "'v nx_graph \<Rightarrow> string \<Rightarrow> string list" where
  "plain_bfs G s = (bfs_step G ^^ number_of_nodes G) [s]"

text \<open>\<^verbatim>\<open>nx.is_connected(G)\<close>: the null graph raises, otherwise the search from the first
  node of the graph must see \<^verbatim>\<open>len(G)\<close> nodes.\<close>

definition is_connected :: "'v nx_graph \<Rightarrow> exn + bool" where
  "is_connected G =
     (case g_node G of
        [] \<Rightarrow> Inl (Exn NetworkXPointlessConcept ''Connectivity is undefined for the null graph.'')
      | (s, a) # rest \<Rightarrow> Inr (length (plain_bfs G s) = number_of_nodes G))"

section \<open>Core numbers and the k-core\<close>

text \<open>\<^verbatim>\<open>nx.number_of_selfloops(G) > 0\<close>\<close>

definition has_selfloops :: "'v nx_graph \<Rightarrow> bool" where
  "has_selfloops G = (\<exists>(n, nb) \<in> set (g_adj G). n \<in> fst ` set nb)"

text \<open>The nodes of the \<open>k\<close>-core, the largest subgraph in which every node has at least
  \<open>k\<close> neighbours: nodes with fewer than \<open>k\<close> neighbours among the remaining ones are
  deleted, once per node of the graph. The core number of a node is the largest \<open>k\<close>
  whose \<open>k\<close>-core holds the node (the library computes the same numbers with the bucket
  algorithm of Batagelj and Zaversnik).\<close>

definition prune :: "'v nx_graph \<Rightarrow> nat \<Rightarrow> string list \<Rightarrow> string list" where
  "prune G k S = filter (\<lambda>v. k \<le> length (filter (\<lambda>w. w \<in> set S) (map fst (nbrs G v)))) S"

definition k_core_nodes :: "'v nx_graph \<Rightarrow> nat \<Rightarrow> string list" where
  "k_core_nodes G k = (prune G k ^^ number_of_nodes G) (map fst (g_adj G))"

definition core_of :: "'v nx_graph \<Rightarrow> string \<Rightarrow> nat" where
  "core_of G n =
     fold max (filter (\<lambda>k. n \<in> set (k_core_nodes G k)) [0..<Suc (number_of_nodes G)]) 0"

text \<open>\<^verbatim>\<open>nx.core_number(G)\<close> refuses a graph with self-loops and otherwise returns the
  dictionary of core numbers. The refusal is a \<^verbatim>\<open>NetworkXError\<close>, the class that the
  handler at line 114 catches (later releases of the library raise
  \<^verbatim>\<open>NetworkXNotImplemented\<close> instead, which that handler lets through). The library
  raises nothing else here: a \<open>k\<close> above every core number is not an error.\<close>

definition core_number :: "'v nx_graph \<Rightarrow> exn + (string \<times> nat) list" where
  "core_number G =
     (if has_selfloops G
      then Inl (Exn NetworkXError ''Input graph has self loops which is not permitted; Consider using G.remove_edges_from(nx.selfloop_edges(G)).'')
      else Inr (map (\<lambda>n. (n, core_of G n)) (map fst (g_adj G))))"

text \<open>\<^verbatim>\<open>G.subgraph(nodes).copy()\<close>: the nodes of \<open>S\<close> with their attributes and the edges
  between them.\<close>

definition subgraph :: "'v nx_graph \<Rightarrow> string list \<Rightarrow> 'v nx_graph" where
  "subgraph G S =
     \<lparr>g_node = filter (\<lambda>(n, a). n \<in> set S) (g_node G),
      g_adj = map (\<lambda>(n, nb). (n, filter (\<lambda>(m, d). m \<in> set S) nb))
                (filter (\<lambda>(n, nb). n \<in> set S) (g_adj G))\<rparr>"

text \<open>\<^verbatim>\<open>nx.k_core(G, k)\<close> with \<open>k\<close> given: the core numbers are computed and the subgraph
  of the nodes \<open>v\<close> with \<^verbatim>\<open>core[v] >= k\<close> is returned.\<close>

definition k_core :: "'v nx_graph \<Rightarrow> int \<Rightarrow> exn + 'v nx_graph" where
  "k_core G k =
     (case core_number G of
        Inl e \<Rightarrow> Inl e
      | Inr core \<Rightarrow> Inr (subgraph G (map fst (filter (\<lambda>(v, c). k \<le> int c) core))))"

section \<open>Printing\<close>

text \<open>\<^verbatim>\<open>str\<close> of an integer, and of a truth value.\<close>

fun digits :: "nat \<Rightarrow> string" where
  "digits n = (if n < 10 then [''0123456789'' ! n] else digits (n div 10) @ [''0123456789'' ! (n mod 10)])"

declare digits.simps [simp del]

definition show_int :: "int \<Rightarrow> string" where
  "show_int i = (if i < 0 then ''-'' @ digits (nat (- i)) else digits (nat i))"

definition show_bool :: "bool \<Rightarrow> string" where
  "show_bool b = (if b then ''True'' else ''False'')"

text \<open>The format \<^verbatim>\<open>:.6f\<close>: the value rounded to the nearest multiple of \<open>10\<^sup>-\<^sup>6\<close>, a tie
  going to the even neighbour, written with six decimals.\<close>

definition round_half_even :: "rat \<Rightarrow> int" where
  "round_half_even x =
     (let f = \<lfloor>x\<rfloor>; d = x - of_int f
      in if d < 1 / 2 then f else if 1 / 2 < d then f + 1 else if even f then f else f + 1)"

definition fmt6 :: "rat \<Rightarrow> string" where
  "fmt6 x =
     (let r = nat (round_half_even (\<bar>x\<bar> * 1000000));
          frac = digits (r mod 1000000)
      in (if x < 0 then ''-'' else '''') @ digits (r div 1000000) @ ''.''
           @ replicate (6 - length frac) (CHR ''0'') @ frac)"

text \<open>The lines \<^verbatim>\<open>f"{i}. {n}: {val}"\<close> of a ranking, numbered from 1.\<close>

definition rows :: "('a \<Rightarrow> string) \<Rightarrow> (string \<times> 'a) list \<Rightarrow> string list" where
  "rows fmt r =
     map (\<lambda>(i, (n, val)). show_int (int i) @ ''. '' @ n @ '': '' @ fmt val)
       (zip [1..<Suc (length r)] r)"

text \<open>A printed text that starts with a line break.\<close>

definition nl :: "string \<Rightarrow> string" where
  "nl s = CHR 0x0A # s"

section \<open>The program\<close>

text \<open>The command line after \<^verbatim>\<open>parse_args\<close>.\<close>

record args =
  arg_graphml :: string
  arg_top :: int
  arg_plot :: bool
  arg_k :: int
  arg_seed :: int
  arg_prefix :: string
  arg_label_top :: int

text \<open>What the program takes from outside: the file system (\<^verbatim>\<open>Path.exists\<close>,
  \<^verbatim>\<open>Path.resolve\<close>), the GraphML parser, the centralities that the library computes in
  floating point, and the force-directed layout. A library call returns its value or
  raises. The layout gives a position to every node of the graph it is called on. The
  import of the plotting library and the writing of the image files are taken to
  succeed.\<close>

type_synonym point = "rat \<times> rat"

record 'v env =
  path_exists :: "string \<Rightarrow> bool"
  path_resolve :: "string \<Rightarrow> string"
  read_graphml :: "string \<Rightarrow> exn + 'v raw_graph"
  degree_centrality :: "'v nx_graph \<Rightarrow> exn + (string \<times> rat) list"
  closeness_centrality :: "'v nx_graph \<Rightarrow> exn + (string \<times> rat) list"
  betweenness_centrality :: "'v nx_graph \<Rightarrow> exn + (string \<times> rat) list"
  pagerank :: "'v nx_graph \<Rightarrow> exn + (string \<times> rat) list"
  eigenvector_centrality :: "'v nx_graph \<Rightarrow> exn + (string \<times> rat) list"
  spring_layout :: "'v nx_graph \<Rightarrow> int \<Rightarrow> string \<Rightarrow> point"

text \<open>What a run leaves behind: the texts printed to the two streams (one entry per
  \<^verbatim>\<open>print\<close>), the calls of \<^verbatim>\<open>spring_layout\<close>, the figures saved, and how the process
  ended. A saved figure records the file, the resolution, the graph drawn, the position
  mapping handed to the drawing calls, the node sizes and the labels.\<close>

datatype exit_status = Exit0 | Exit1 | Uncaught exn

record 'v figure =
  fig_file :: string
  fig_dpi :: nat
  fig_graph :: "'v nx_graph"
  fig_pos :: "string \<Rightarrow> point"
  fig_sizes :: "rat list"
  fig_labels :: "(point \<times> string) list"

record 'v outcome =
  stdout :: "string list"
  stderr :: "string list"
  layouts :: "('v nx_graph \<times> int) list"
  figures :: "'v figure list"
  status :: exit_status

text \<open>Lines 46 to 49: the texts printed before \<^verbatim>\<open>nx.is_connected\<close> is called.\<close>

definition basic_lines :: "'v nx_graph \<Rightarrow> string list" where
  "basic_lines G =
     [''=== Basic Statistics ==='',
      ''Nodes: '' @ show_int (int (number_of_nodes G)),
      ''Edges: '' @ show_int (number_of_edges G),
      ''Density: '' @ fmt6 (density G)]"

text \<open>Lines 61 to 79: each centrality is computed, then its title and its rows are
  printed; an exception ends the run at once.\<close>

fun run_sections ::
  "int \<Rightarrow> (string \<times> (exn + (string \<times> rat) list)) list \<Rightarrow> string list \<times> exn option" where
  "run_sections t [] = ([], None)"
| "run_sections t ((title, Inl e) # rest) = ([], Some e)"
| "run_sections t ((title, Inr d) # rest) =
     (let (out, r) = run_sections t rest
      in (title # rows fmt6 (top_n d t) @ out, r))"

text \<open>Lines 46 to 79, the sections before the eigenvector centrality.\<close>

definition report_head :: "'v env \<Rightarrow> args \<Rightarrow> 'v nx_graph \<Rightarrow> string list \<times> exn option" where
  "report_head env a G =
     (case is_connected G of
        Inl e \<Rightarrow> (basic_lines G, Some e)
      | Inr c \<Rightarrow>
          (let out = basic_lines G
                 @ [''Connected: '' @ show_bool c,
                    nl ''=== Top by Degree (most interactions) ==='']
                 @ rows show_int (top_n (degree G) (arg_top a))
                 @ [nl ''=== Centralities (popularity/influence) ===''];
               (out', r) = run_sections (arg_top a)
                 [(nl ''Top Degree Centrality:'', degree_centrality env G),
                  (nl ''Top Closeness Centrality:'', closeness_centrality env G),
                  (nl ''Top Betweenness Centrality:'', betweenness_centrality env G),
                  (nl ''Top PageRank:'', pagerank env G)]
           in (out @ out', r)))"

text \<open>Lines 82 to 88: the eigenvector section with its handler.\<close>

definition eig_section :: "'v env \<Rightarrow> args \<Rightarrow> 'v nx_graph \<Rightarrow> string list \<times> exn option" where
  "eig_section env a G =
     (case eigenvector_centrality env G of
        Inr eig \<Rightarrow> (nl ''Top Eigenvector Centrality:'' # rows fmt6 (top_n eig (arg_top a)), None)
      | Inl e \<Rightarrow>
          if is_NetworkXException (cls e)
          then ([nl ''[Eigenvector centrality skipped: '' @ msg e @ '']''], None)
          else ([], Some e))"

text \<open>The labels of a plot: \<^verbatim>\<open>plt.text(x, y, str(n))\<close> for the first \<^verbatim>\<open>label_top\<close> nodes
  of the degree ranking, when \<^verbatim>\<open>label_top > 0\<close>.\<close>

definition labels :: "int \<Rightarrow> (string \<times> int) list \<Rightarrow> (string \<Rightarrow> point) \<Rightarrow> (point \<times> string) list" where
  "labels lt deg pos =
     (if 0 < lt then map (\<lambda>(n, d). (pos n, n)) (slice_to (sort_key rank_key deg) lt) else [])"

text \<open>The node sizes \<^verbatim>\<open>[b + c * deg[n] for n in H.nodes()]\<close>, where \<open>deg\<close> is the
  dictionary of the degrees: a node without an entry raises \<^verbatim>\<open>KeyError\<close>.\<close>

fun node_sizes :: "rat \<Rightarrow> rat \<Rightarrow> (string \<times> int) list \<Rightarrow> string list \<Rightarrow> exn + rat list" where
  "node_sizes b c deg [] = Inr []"
| "node_sizes b c deg (n # ns) =
     (case map_of deg n of
        None \<Rightarrow> Inl (Exn PyException ''KeyError'')
      | Some d \<Rightarrow>
          (case node_sizes b c deg ns of
             Inl e \<Rightarrow> Inl e
           | Inr ss \<Rightarrow> Inr ((b + c * of_int d) # ss)))"

text \<open>Lines 98 to 108: the figure of the whole graph.\<close>

definition full_figure :: "args \<Rightarrow> 'v nx_graph \<Rightarrow> (string \<Rightarrow> point) \<Rightarrow> rat list \<Rightarrow> 'v figure" where
  "full_figure a G pos sizes =
     \<lparr>fig_file = arg_prefix a @ ''_full.png'', fig_dpi = 200, fig_graph = G, fig_pos = pos,
      fig_sizes = sizes, fig_labels = labels (arg_label_top a) (degree G) pos\<rparr>"

text \<open>Lines 122 to 132: the figure of the core, named after the value of \<^verbatim>\<open>args.k\<close> at
  that point.\<close>

definition core_figure ::
  "args \<Rightarrow> int \<Rightarrow> 'v nx_graph \<Rightarrow> (string \<Rightarrow> point) \<Rightarrow> rat list \<Rightarrow> 'v figure" where
  "core_figure a k core pos sizes =
     \<lparr>fig_file = arg_prefix a @ ''_kcore'' @ show_int k @ ''.png'', fig_dpi = 220,
      fig_graph = core, fig_pos = pos, fig_sizes = sizes,
      fig_labels = labels (arg_label_top a) (degree core) pos\<rparr>"

text \<open>\<^verbatim>\<open>max(kmax.values())\<close> raises \<^verbatim>\<open>ValueError\<close> on an empty dictionary.\<close>

definition max_value :: "(string \<times> nat) list \<Rightarrow> exn + nat" where
  "max_value core =
     (case map snd core of
        [] \<Rightarrow> Inl (Exn PyException ''max() arg is an empty sequence'')
      | c # cs \<Rightarrow> Inr (fold max cs c))"

text \<open>Lines 112 to 118: the extraction of the core with its handler. The result is the
  texts printed, the value of \<^verbatim>\<open>args.k\<close> afterwards and the core.\<close>

definition extract_core :: "'v nx_graph \<Rightarrow> int \<Rightarrow> exn + (string list \<times> int \<times> 'v nx_graph)" where
  "extract_core G k =
     (case k_core G k of
        Inr core \<Rightarrow> Inr ([], k, core)
      | Inl e \<Rightarrow>
          if is_NetworkXError (cls e) then
            (case core_number G of
               Inl e' \<Rightarrow> Inl e'
             | Inr kmax \<Rightarrow>
                 (case max_value kmax of
                    Inl e' \<Rightarrow> Inl e'
                  | Inr k' \<Rightarrow>
                      (case k_core G (int k') of
                         Inl e' \<Rightarrow> Inl e'
                       | Inr core \<Rightarrow>
                           Inr ([''[Note] Requested k too high; using max k='' @ show_int (int k')],
                                int k', core))))
          else Inl e)"

text \<open>Lines 90 to 133: the layout is computed once, the full figure is saved and
  announced, the core is extracted, its figure is saved and announced, both drawn with
  the one position mapping \<open>pos\<close>.\<close>

definition plot :: "'v env \<Rightarrow> args \<Rightarrow> 'v nx_graph \<Rightarrow> 'v outcome" where
  "plot env a G =
     (let pos = spring_layout env G (arg_seed a);
          ls = [(G, arg_seed a)]
      in case node_sizes 8 (4 / 10) (degree G) (map fst (g_node G)) of
           Inl e \<Rightarrow>
             \<lparr>stdout = [], stderr = [], layouts = ls, figures = [], status = Uncaught e\<rparr>
         | Inr sizes \<Rightarrow>
             (let full = full_figure a G pos sizes;
                  out = [''Wrote '' @ fig_file full]
              in case extract_core G (arg_k a) of
                   Inl e \<Rightarrow>
                     \<lparr>stdout = out, stderr = [], layouts = ls, figures = [full],
                      status = Uncaught e\<rparr>
                 | Inr (note, k, core) \<Rightarrow>
                     (case node_sizes 12 (7 / 10) (degree core) (map fst (g_node core)) of
                        Inl e \<Rightarrow>
                          \<lparr>stdout = out @ note, stderr = [], layouts = ls, figures = [full],
                           status = Uncaught e\<rparr>
                      | Inr sizes_core \<Rightarrow>
                          (let fig = core_figure a k core pos sizes_core
                           in \<lparr>stdout = out @ note @ [''Wrote '' @ fig_file fig], stderr = [],
                               layouts = ls, figures = [full, fig], status = Exit0\<rparr>))))"

text \<open>The run on a graph: the report, then the plots when asked for. An exception that no
  handler catches ends the run; the traceback it prints is not modelled.\<close>

definition run :: "'v env \<Rightarrow> args \<Rightarrow> 'v nx_graph \<Rightarrow> 'v outcome" where
  "run env a G =
     (case report_head env a G of
        (out, Some e) \<Rightarrow>
          \<lparr>stdout = out, stderr = [], layouts = [], figures = [], status = Uncaught e\<rparr>
      | (out, None) \<Rightarrow>
          (case eig_section env a G of
             (out', Some e) \<Rightarrow>
               \<lparr>stdout = out @ out', stderr = [], layouts = [], figures = [], status = Uncaught e\<rparr>
           | (out', None) \<Rightarrow>
               if arg_plot a
               then (let p = plot env a G in p\<lparr>stdout := out @ out' @ stdout p\<rparr>)
               else \<lparr>stdout = out @ out', stderr = [], layouts = [], figures = [],
                     status = Exit0\<rparr>))"

text \<open>\<^verbatim>\<open>main\<close>: \<^verbatim>\<open>sys.exit\<close> with a text prints the text to the error stream and ends the
  process with status 1.\<close>

definition main :: "'v env \<Rightarrow> args \<Rightarrow> 'v outcome" where
  "main env a =
     (if \<not> path_exists env (arg_graphml a)
      then \<lparr>stdout = [],
            stderr = [''ERROR: GraphML not found at '' @ path_resolve env (arg_graphml a)],
            layouts = [], figures = [], status = Exit1\<rparr>
      else case read_graphml env (arg_graphml a) of
             Inl e \<Rightarrow> \<lparr>stdout = [], stderr = [], layouts = [], figures = [], status = Uncaught e\<rparr>
           | Inr Graw \<Rightarrow> run env a (simplify Graw))"

section \<open>An example run\<close>

text \<open>The path \<open>A - B - C - D\<close> as a raw graph without attributes, an environment in
  which the input file \<^verbatim>\<open>g.graphml\<close> holds it and the eigenvector centrality does not
  converge, and the command line \<^verbatim>\<open>g.graphml --top 2 --plot\<close>.\<close>

definition ex_path :: "nat raw_graph" where
  "ex_path =
     \<lparr>raw_nodes = [(''A'', Map.empty), (''B'', Map.empty), (''C'', Map.empty), (''D'', Map.empty)],
      raw_edges = [(''A'', ''B'', Map.empty), (''B'', ''C'', Map.empty), (''C'', ''D'', Map.empty)]\<rparr>"

definition ex_env :: "nat env" where
  "ex_env =
     \<lparr>path_exists = (\<lambda>p. p = ''g.graphml''),
      path_resolve = (\<lambda>p. ''/data/'' @ p),
      read_graphml = (\<lambda>p. Inr ex_path),
      degree_centrality = (\<lambda>G. Inr (map (\<lambda>(n, d). (n, of_int d / 3)) (degree G))),
      closeness_centrality = (\<lambda>G. Inr []),
      betweenness_centrality = (\<lambda>G. Inr []),
      pagerank = (\<lambda>G. Inr []),
      eigenvector_centrality = (\<lambda>G. Inl (Exn PowerIterationFailedConvergence
        ''power iteration failed to converge within 1000 iterations'')),
      spring_layout = (\<lambda>G s n. (of_nat (length n), of_int s))\<rparr>"

definition ex_args :: args where
  "ex_args =
     \<lparr>arg_graphml = ''g.graphml'', arg_top = 2, arg_plot = True, arg_k = 20, arg_seed = 42,
      arg_prefix = ''marvel_network'', arg_label_top = 0\<rparr>"

section \<open>Nodes and edges as sets\<close>

text \<open>The nodes of a graph, and its edges as unordered pairs of endpoints.\<close>

definition node_set :: "'v nx_graph \<Rightarrow> string set" where
  "node_set G = fst ` set (g_node G)"



text \<open>Adjacency as a relation on nodes.\<close>

definition edge_rel :: "'v nx_graph \<Rightarrow> (string \<times> string) set" where
  "edge_rel G = {(u, v). edge_data G u v \<noteq> None}"

text \<open>A set of nodes in which every node has at least \<open>k\<close> neighbours inside the set.\<close>

definition min_degree_in :: "'v nx_graph \<Rightarrow> nat \<Rightarrow> string set \<Rightarrow> bool" where
  "min_degree_in G k S \<longleftrightarrow>
     S \<subseteq> fst ` set (g_adj G) \<and> (\<forall>v \<in> S. k \<le> card {w \<in> S. (v, w) \<in> edge_rel G})"

section \<open>Simplification\<close>

lemma nbrs_new_node:
  assumes "fst ` set (g_adj G) = fst ` set (g_node G)"
  shows "nbrs (new_node G n) u = nbrs G u"
proof (cases "has_node G n")
  case True
  then show ?thesis by (simp add: new_node_def)
next
  case False
  with assms have "map_of (g_adj G) n = None"
    by (simp add: has_node_def map_of_eq_None_iff)
  with False show ?thesis
    by (simp add: new_node_def nbrs_def adj_get_def update_conv')
qed

lemma keys_new_node:
  assumes "fst ` set (g_adj G) = fst ` set (g_node G)"
  shows "fst ` set (g_adj (new_node G n)) = fst ` set (g_node (new_node G n))"
    and "fst ` set (g_node (new_node G n)) = insert n (fst ` set (g_node G))"
  using assms by (auto simp: new_node_def has_node_def dom_update)

lemma edge_data_new_node:
  "fst ` set (g_adj G) = fst ` set (g_node G) \<Longrightarrow> edge_data (new_node G n) u v = edge_data G u v"
  by (simp add: edge_data_def nbrs_new_node)


lemma adj_get_set_adj:
  "adj_get (set_adj adj u v d) x =
     (if x = u then AList.update v d (adj_get adj u) else adj_get adj x)"
  by (simp add: set_adj_def adj_get_def update_conv')

lemma keys_set_adj: "fst ` set (set_adj adj u v d) = insert u (fst ` set adj)"
  by (simp add: set_adj_def dom_update)

lemma edge_data_add_edge:
  assumes "fst ` set (g_adj G) = fst ` set (g_node G)"
  shows "edge_data (add_edge G x y d) u v =
     (if (u = x \<and> v = y) \<or> (u = y \<and> v = x) then Some (or_empty (edge_data G x y) ++ d)
      else edge_data G u v)"
proof -
  have k1: "fst ` set (g_adj (new_node G x)) = fst ` set (g_node (new_node G x))"
    using assms by (rule keys_new_node)
  have n2: "\<And>a z. adj_get (g_adj (new_node (new_node G x) z)) a = nbrs G a"
    using assms k1 by (simp add: nbrs_new_node flip: nbrs_def)
  show ?thesis
    by (simp add: add_edge_def Let_def edge_data_def nbrs_def adj_get_set_adj update_conv' n2)
qed




lemma keys_add_edge:
  assumes "fst ` set (g_adj G) = fst ` set (g_node G)"
  shows "fst ` set (g_adj (add_edge G x y d)) = fst ` set (g_node (add_edge G x y d))"
    and "fst ` set (g_node (add_edge G x y d)) = insert x (insert y (fst ` set (g_node G)))"
proof -
  have k1: "fst ` set (g_adj (new_node G x)) = fst ` set (g_node (new_node G x))"
    using assms by (rule keys_new_node)
  have k2: "fst ` set (g_adj (new_node (new_node G x) y)) = fst ` set (g_node (new_node (new_node G x) y))"
    using k1 by (rule keys_new_node)
  have k3: "fst ` set (g_node (new_node (new_node G x) y)) = insert x (insert y (fst ` set (g_node G)))"
    using keys_new_node(2)[OF k1, of y] keys_new_node(2)[OF assms, of x] by auto
  show "fst ` set (g_adj (add_edge G x y d)) = fst ` set (g_node (add_edge G x y d))"
    using k2 k3 by (auto simp: add_edge_def Let_def keys_set_adj)
  show "fst ` set (g_node (add_edge G x y d)) = insert x (insert y (fst ` set (g_node G)))"
    using k3 by (simp add: add_edge_def Let_def)
qed

lemma nbrs_add_edge:
  assumes "fst ` set (g_adj G) = fst ` set (g_node G)"
  shows "nbrs (add_edge G x y d) u =
     (if u = y then AList.update x (or_empty (edge_data G x y) ++ d)
                      (if y = x then AList.update y (or_empty (edge_data G x y) ++ d) (nbrs G x) else nbrs G y)
      else if u = x then AList.update y (or_empty (edge_data G x y) ++ d) (nbrs G x)
      else nbrs G u)"
proof -
  have k1: "fst ` set (g_adj (new_node G x)) = fst ` set (g_node (new_node G x))"
    using assms by (rule keys_new_node)
  have n2: "\<And>a z. adj_get (g_adj (new_node (new_node G x) z)) a = nbrs G a"
    using assms k1 by (simp add: nbrs_new_node flip: nbrs_def)
  show ?thesis
    by (simp add: add_edge_def Let_def edge_data_def nbrs_def adj_get_set_adj n2)
qed

lemma distinct_node_new_node:
  "distinct (map fst (g_node G)) \<Longrightarrow> distinct (map fst (g_node (new_node G n)))"
  by (simp add: new_node_def distinct_update)

lemma distinct_adj_new_node:
  "distinct (map fst (g_adj G)) \<Longrightarrow> distinct (map fst (g_adj (new_node G n)))"
  by (simp add: new_node_def distinct_update)

lemma graph_inv_add_edge:
  assumes "graph_inv G"
  shows "graph_inv (add_edge G x y d)"
proof -
  have k: "fst ` set (g_adj G) = fst ` set (g_node G)"
    using assms by (simp add: graph_inv_def)
  have "distinct (map fst (g_node (add_edge G x y d)))"
    using assms by (simp add: add_edge_def Let_def graph_inv_def distinct_node_new_node)
  moreover have "distinct (map fst (g_adj (add_edge G x y d)))"
    using assms
    by (simp add: add_edge_def Let_def graph_inv_def set_adj_def distinct_update distinct_adj_new_node)
  moreover have "\<forall>u. distinct (map fst (nbrs (add_edge G x y d) u))"
    using assms by (simp add: nbrs_add_edge[OF k] graph_inv_def distinct_update)
  moreover have "\<forall>u v. edge_data (add_edge G x y d) u v = edge_data (add_edge G x y d) v u"
    using assms by (auto simp: edge_data_add_edge[OF k] graph_inv_def)
  ultimately show ?thesis
    using keys_add_edge(1)[OF k] by (simp add: graph_inv_def)
qed

lemma graph_inv_new_node:
  assumes "graph_inv G"
  shows "graph_inv (new_node G n)"
proof -
  have k: "fst ` set (g_adj G) = fst ` set (g_node G)"
    using assms by (simp add: graph_inv_def)
  show ?thesis
    using assms keys_new_node(1)[OF k]
    by (simp add: graph_inv_def distinct_node_new_node distinct_adj_new_node
        nbrs_new_node[OF k] edge_data_new_node[OF k])
qed

lemma nbrs_add_node:
  assumes "fst ` set (g_adj G) = fst ` set (g_node G)"
  shows "nbrs (add_node G (n, a)) u = nbrs G u"
  using nbrs_new_node[OF assms] by (simp add: Let_def nbrs_def)


lemma graph_inv_add_node:
  assumes "graph_inv G"
  shows "graph_inv (add_node G nd)"
proof (cases nd)
  case (Pair n a)
  define H where "H = add_node G (n, a)"
  have i: "graph_inv (new_node G n)"
    using assms by (rule graph_inv_new_node)
  have adj: "g_adj H = g_adj (new_node G n)"
    by (simp add: H_def Let_def)
  have keys: "fst ` set (g_node H) = fst ` set (g_node (new_node G n))"
    by (auto simp: H_def Let_def dom_update new_node_def has_node_def)
  have dist: "distinct (map fst (g_node H))"
    using i by (simp add: H_def Let_def graph_inv_def distinct_update)
  have "graph_inv H"
    using i dist by (simp add: graph_inv_def nbrs_def edge_data_def adj keys)
  then show ?thesis
    by (simp only: H_def Pair)
qed

lemma graph_inv_empty: "graph_inv empty_graph"
  by (simp add: graph_inv_def empty_graph_def nbrs_def adj_get_def edge_data_def)

lemma graph_inv_add_nodes_from: "graph_inv G \<Longrightarrow> graph_inv (add_nodes_from G ns)"
  unfolding add_nodes_from_def
  by (induction ns arbitrary: G) (simp_all add: graph_inv_add_node)

lemma nbrs_add_nodes_from: "graph_inv G \<Longrightarrow> nbrs (add_nodes_from G ns) u = nbrs G u"
  unfolding add_nodes_from_def
proof (induction ns arbitrary: G)
  case Nil
  then show ?case by simp
next
  case (Cons nd ns)
  obtain n a where nd: "nd = (n, a)" by (cases nd)
  have "nbrs (add_node G nd) u = nbrs G u"
    using Cons.prems unfolding nd by (intro nbrs_add_node) (simp add: graph_inv_def)
  with Cons.IH[OF graph_inv_add_node[OF Cons.prems, of nd]] show ?case
    by simp
qed



lemma add_edges_Nil: "add_edges G [] = G"
  by (simp add: add_edges_def)

lemma add_edges_Cons:
  "add_edges G ((x, y, d) # es) = add_edges (if x \<noteq> y then add_edge G x y d else G) es"
  by (simp add: add_edges_def)

lemma graph_inv_add_edges: "graph_inv G \<Longrightarrow> graph_inv (add_edges G es)"
proof (induction es arbitrary: G)
  case Nil
  then show ?case by (simp add: add_edges_Nil)
next
  case (Cons e es)
  obtain x y d where e: "e = (x, y, d)" by (cases e)
  show ?case
    unfolding e add_edges_Cons using Cons.prems
    by (intro Cons.IH) (simp add: graph_inv_add_edge)
qed

lemma inserted_Nil: "inserted [] u v = []"
  by (simp add: inserted_def)

lemma inserted_Cons:
  "inserted ((x, y, d) # es) u v =
     (if x \<noteq> y \<and> ((x = u \<and> y = v) \<or> (x = v \<and> y = u)) then d # inserted es u v
      else inserted es u v)"
  by (simp add: inserted_def)

lemma edge_data_add_edges:
  "graph_inv G \<Longrightarrow>
   edge_data (add_edges G es) u v =
     (if inserted es u v = [] then edge_data G u v
      else Some (foldl (++) (or_empty (edge_data G u v)) (inserted es u v)))"
proof (induction es arbitrary: G)
  case Nil
  then show ?case by (simp add: add_edges_Nil inserted_Nil)
next
  case (Cons e es)
  obtain x y d where e: "e = (x, y, d)" by (cases e)
  have k: "fst ` set (g_adj G) = fst ` set (g_node G)"
    and sym: "edge_data G v u = edge_data G u v"
    using Cons.prems by (simp_all add: graph_inv_def)
  show ?case
  proof (cases "x \<noteq> y")
    case True
    have "graph_inv (add_edge G x y d)"
      using Cons.prems by (rule graph_inv_add_edge)
    from Cons.IH[OF this] True sym show ?thesis
      by (auto simp: e add_edges_Cons inserted_Cons edge_data_add_edge[OF k] or_empty_def)
  next
    case False
    with Cons.IH[OF Cons.prems] show ?thesis
      by (simp add: e add_edges_Cons inserted_Cons)
  qed
qed




lemma graph_inv_simplify: "graph_inv (simplify R)"
  by (simp add: simplify_def graph_inv_add_edges graph_inv_add_nodes_from graph_inv_empty)

lemma simplify_edge_data:
  "edge_data (simplify R) u v =
     (if inserted (raw_edges R) u v = [] then None
      else Some (foldl (++) Map.empty (inserted (raw_edges R) u v)))"
proof -
  let ?G = "add_nodes_from empty_graph (raw_nodes R)"
  have i: "graph_inv ?G"
    by (simp add: graph_inv_add_nodes_from graph_inv_empty)
  have "nbrs ?G u = []"
    by (simp add: nbrs_add_nodes_from graph_inv_empty) (simp add: nbrs_def adj_get_def empty_graph_def)
  then have "edge_data ?G u v = None"
    by (simp add: edge_data_def)
  then show ?thesis
    by (simp add: simplify_def edge_data_add_edges[OF i] or_empty_def)
qed

lemma inserted_self: "inserted es u u = []"
  by (induction es) (auto simp: inserted_Nil inserted_Cons)


lemma foldl_map_add_single: "foldl (++) Map.empty [d] = d"
  by simp

section \<open>Rankings\<close>

lemma rank_key_less: "rank_key x < rank_key y \<longleftrightarrow> ranks_before x y"
  by (auto simp: rank_key_def ranks_before_def less_prod_def)

lemma inj_on_rank_key: "distinct (map fst d) \<Longrightarrow> distinct (map rank_key d)"
proof -
  assume "distinct (map fst d)"
  then have "distinct (map (snd \<circ> rank_key) d)"
    by (simp add: rank_key_def comp_def)
  then show ?thesis
    by (metis distinct_map inj_on_imageI map_map distinct_map)
qed

lemma distinct_map_sort_key: "distinct (map f (sort_key f xs)) = distinct (map f xs)"
  by (induction xs) (auto simp: distinct_insort_key)

lemma ranking_sorted:
  assumes "distinct (map fst d)"
  shows "sorted_wrt ranks_before (sort_key rank_key d)"
proof -
  have "sorted (map rank_key (sort_key rank_key d))"
    by simp
  moreover have "distinct (map rank_key (sort_key rank_key d))"
    using assms by (simp add: distinct_map_sort_key inj_on_rank_key)
  ultimately have "sorted_wrt (<) (map rank_key (sort_key rank_key d))"
    by (simp add: strict_sorted_iff)
  then show ?thesis
    by (simp add: sorted_wrt_map rank_key_less)
qed

lemma top_n_nonneg: "0 \<le> k \<Longrightarrow> top_n d k = take (nat k) (sort_key rank_key d)"
  by (simp add: top_n_def slice_to_def)

lemma top_n_all: "top_n d (int (length d)) = sort_key rank_key d"
  by (simp add: top_n_def slice_to_def)

lemma top_n_neg: "k < 0 \<Longrightarrow> top_n d k = take (length d - nat (- k)) (sort_key rank_key d)"
proof -
  assume "k < 0"
  then have "nat (int (length d) + k) = length d - nat (- k)" by linarith
  with \<open>k < 0\<close> show ?thesis by (simp add: top_n_def slice_to_def)
qed

section \<open>The example run\<close>

lemma digits_small: "n < 10 \<Longrightarrow> digits n = [''0123456789'' ! n]"
  by (subst digits.simps) simp

lemma digits_large: "\<not> n < 10 \<Longrightarrow> digits n = digits (n div 10) @ [''0123456789'' ! (n mod 10)]"
  by (subst digits.simps) simp

lemma simplify_ex_path:
  "simplify ex_path =
     \<lparr>g_node = [(''A'', Map.empty), (''B'', Map.empty), (''C'', Map.empty), (''D'', Map.empty)],
      g_adj = [(''A'', [(''B'', Map.empty)]), (''B'', [(''A'', Map.empty), (''C'', Map.empty)]),
               (''C'', [(''B'', Map.empty), (''D'', Map.empty)]), (''D'', [(''C'', Map.empty)])]\<rparr>"
  by (simp add: simplify_def ex_path_def add_edges_def add_nodes_from_def empty_graph_def
      add_edge_def new_node_def has_node_def set_adj_def adj_get_def edge_data_def nbrs_def
      node_data_def or_empty_def Let_def)

lemma degree_ex_path: "degree (simplify ex_path) = [(''A'', 1), (''B'', 2), (''C'', 2), (''D'', 1)]"
  by (simp add: simplify_ex_path degree_def degree_of_def)

lemma edges_ex_path: "number_of_edges (simplify ex_path) = 3"
  by (simp add: number_of_edges_def degree_ex_path)

lemma nodes_ex_path: "number_of_nodes (simplify ex_path) = 4"
  by (simp add: number_of_nodes_def simplify_ex_path)

lemma density_ex_path: "density (simplify ex_path) = 1 / 2"
  by (simp add: density_def edges_ex_path nodes_ex_path)

lemma connected_ex_path: "is_connected (simplify ex_path) = Inr True"
  by (simp add: is_connected_def plain_bfs_def bfs_step_def number_of_nodes_def nbrs_def adj_get_def
      simplify_ex_path eval_nat_numeral)


lemma k_core_nodes_ex_path:
  "k_core_nodes (simplify ex_path) 0 = [''A'', ''B'', ''C'', ''D'']"
  "k_core_nodes (simplify ex_path) (Suc 0) = [''A'', ''B'', ''C'', ''D'']"
  "k_core_nodes (simplify ex_path) 2 = []"
  "k_core_nodes (simplify ex_path) 3 = []"
  "k_core_nodes (simplify ex_path) 4 = []"
  by (simp_all add: k_core_nodes_def prune_def number_of_nodes_def nbrs_def adj_get_def
      simplify_ex_path eval_nat_numeral)

lemma core_of_ex_path:
  "core_of (simplify ex_path) n = (if n \<in> {''A'', ''B'', ''C'', ''D''} then 1 else 0)"
proof -
  have u: "[0..<5] = [0, Suc 0, 2, 3, 4::nat]"
    by (simp add: upt_rec)
  show ?thesis
    by (simp add: core_of_def nodes_ex_path u k_core_nodes_ex_path)
qed

lemma core_number_ex_path:
  "core_number (simplify ex_path) = Inr [(''A'', 1), (''B'', 1), (''C'', 1), (''D'', 1)]"
proof -
  have "\<not> has_selfloops (simplify ex_path)"
    by (simp add: has_selfloops_def simplify_ex_path)
  moreover have "map fst (g_adj (simplify ex_path)) = [''A'', ''B'', ''C'', ''D'']"
    by (simp add: simplify_ex_path)
  ultimately show ?thesis
    by (simp add: core_number_def core_of_ex_path)
qed

lemma k_core_ex_path: "k_core (simplify ex_path) 20 = Inr empty_graph"
  by (simp add: k_core_def core_number_ex_path subgraph_def empty_graph_def)

section \<open>The core of a simplified graph\<close>

lemma no_selfloops:
  assumes "graph_inv G" and "\<forall>u. edge_data G u u = None"
  shows "\<not> has_selfloops G"
proof
  assume "has_selfloops G"
  then obtain n nb where in_adj: "(n, nb) \<in> set (g_adj G)" and self: "n \<in> fst ` set nb"
    by (auto simp: has_selfloops_def)
  from assms(1) have "distinct (map fst (g_adj G))"
    by (simp add: graph_inv_def)
  with in_adj have "map_of (g_adj G) n = Some nb"
    by simp
  then have "edge_data G n n = map_of nb n"
    by (simp add: edge_data_def nbrs_def adj_get_def)
  with assms(2) have "map_of nb n = None"
    by metis
  with self show False
    by (simp add: map_of_eq_None_iff)
qed

lemma no_selfloops_simplify: "\<not> has_selfloops (simplify Graw)"
  by (rule no_selfloops) (simp_all add: graph_inv_simplify simplify_edge_data inserted_self)

lemma k_core_no_selfloops:
  "\<not> has_selfloops G \<Longrightarrow>
   k_core G k =
     Inr (subgraph G (map fst (filter (\<lambda>(v, c). k \<le> int c)
            (map (\<lambda>n. (n, core_of G n)) (map fst (g_adj G))))))"
  by (simp add: k_core_def core_number_def)

lemma extract_core_no_selfloops:
  "\<not> has_selfloops G \<Longrightarrow>
   extract_core G k =
     Inr ([], k, subgraph G (map fst (filter (\<lambda>(v, c). k \<le> int c)
            (map (\<lambda>n. (n, core_of G n)) (map fst (g_adj G))))))"
  by (simp add: extract_core_def k_core_no_selfloops)

lemma subgraph_empty:
  assumes "\<forall>n \<in> fst ` set (g_node G) \<union> fst ` set (g_adj G). n \<notin> set S"
  shows "subgraph G S = empty_graph"
proof -
  have "\<And>x. x \<in> set (g_node G) \<Longrightarrow> fst x \<notin> set S"
    using assms by blast
  then have "filter (\<lambda>(n, a). n \<in> set S) (g_node G) = []"
    by (auto simp: filter_empty_conv)
  moreover have "\<And>x. x \<in> set (g_adj G) \<Longrightarrow> fst x \<notin> set S"
    using assms by blast
  then have "filter (\<lambda>(n, nb). n \<in> set S) (g_adj G) = []"
    by (auto simp: filter_empty_conv)
  ultimately show ?thesis
    by (simp add: subgraph_def empty_graph_def)
qed

lemma keys_subgraph:
  "fst ` set (g_node (subgraph G S)) = fst ` set (g_node G) \<inter> set S"
  "fst ` set (g_adj (subgraph G S)) = fst ` set (g_adj G) \<inter> set S"
  by (force simp: subgraph_def image_iff)+

lemma keys_degree: "fst ` set (degree G) = fst ` set (g_adj G)"
  by (force simp: degree_def image_iff)

lemma node_sizes_ok:
  "set ns \<subseteq> fst ` set deg \<Longrightarrow> \<exists>ss. node_sizes b c deg ns = Inr ss \<and> length ss = length ns"
proof (induction ns)
  case Nil
  then show ?case by simp
next
  case (Cons n ns)
  then obtain d where "map_of deg n = Some d"
    by (cases "map_of deg n") (auto simp: map_of_eq_None_iff)
  with Cons show ?case by auto
qed

lemma node_sizes_graph:
  assumes "fst ` set (g_adj G) = fst ` set (g_node G)"
  shows "\<exists>ss. node_sizes b c (degree G) (map fst (g_node G)) = Inr ss \<and> length ss = length (g_node G)"
  using node_sizes_ok[of "map fst (g_node G)" "degree G" b c] assms
  by (simp add: keys_degree)

lemma plot_ok:
  assumes "graph_inv G" and "\<not> has_selfloops G"
  shows "\<exists>core sizes sizes_core.
     k_core G (arg_k a) = Inr core \<and>
     plot env a G =
       \<lparr>stdout = [''Wrote '' @ arg_prefix a @ ''_full.png'',
                  ''Wrote '' @ arg_prefix a @ ''_kcore'' @ show_int (arg_k a) @ ''.png''],
        stderr = [],
        layouts = [(G, arg_seed a)],
        figures = [full_figure a G (spring_layout env G (arg_seed a)) sizes,
                   core_figure a (arg_k a) core (spring_layout env G (arg_seed a)) sizes_core],
        status = Exit0\<rparr>"
proof -
  define core where
    "core = subgraph G (map fst (filter (\<lambda>(v, c). arg_k a \<le> int c)
               (map (\<lambda>n. (n, core_of G n)) (map fst (g_adj G)))))"
  have keys: "fst ` set (g_adj G) = fst ` set (g_node G)"
    using assms(1) by (simp add: graph_inv_def)
  have kc: "k_core G (arg_k a) = Inr core"
    using assms(2) by (simp add: k_core_no_selfloops core_def)
  have ec: "extract_core G (arg_k a) = Inr ([], arg_k a, core)"
    using assms(2) by (simp add: extract_core_no_selfloops core_def)
  obtain sizes where s1: "node_sizes 8 (4 / 10) (degree G) (map fst (g_node G)) = Inr sizes"
    using node_sizes_graph[OF keys] by blast
  have "fst ` set (g_adj core) = fst ` set (g_node core)"
    by (simp add: core_def keys_subgraph keys)
  then obtain sizes_core
    where s2: "node_sizes 12 (7 / 10) (degree core) (map fst (g_node core)) = Inr sizes_core"
    using node_sizes_graph by blast
  have "plot env a G =
       \<lparr>stdout = [''Wrote '' @ arg_prefix a @ ''_full.png'',
                  ''Wrote '' @ arg_prefix a @ ''_kcore'' @ show_int (arg_k a) @ ''.png''],
        stderr = [],
        layouts = [(G, arg_seed a)],
        figures = [full_figure a G (spring_layout env G (arg_seed a)) sizes,
                   core_figure a (arg_k a) core (spring_layout env G (arg_seed a)) sizes_core],
        status = Exit0\<rparr>"
    unfolding plot_def Let_def s1 sum.case ec prod.case s2
    by (simp add: full_figure_def core_figure_def)
  with kc show ?thesis by blast
qed

lemma plot_simplify:
  "\<exists>core sizes sizes_core.
     k_core (simplify Graw) (arg_k a) = Inr core \<and>
     plot env a (simplify Graw) =
       \<lparr>stdout = [''Wrote '' @ arg_prefix a @ ''_full.png'',
                  ''Wrote '' @ arg_prefix a @ ''_kcore'' @ show_int (arg_k a) @ ''.png''],
        stderr = [],
        layouts = [(simplify Graw, arg_seed a)],
        figures = [full_figure a (simplify Graw) (spring_layout env (simplify Graw) (arg_seed a)) sizes,
                   core_figure a (arg_k a) core (spring_layout env (simplify Graw) (arg_seed a)) sizes_core],
        status = Exit0\<rparr>"
  by (rule plot_ok) (simp_all add: graph_inv_simplify no_selfloops_simplify)

lemma k_core_too_high:
  assumes "core_number G = Inr cn" and "\<forall>(n, c) \<in> set cn. int c < k"
    and "fst ` set (g_adj G) = fst ` set (g_node G)"
  shows "k_core G k = Inr empty_graph"
proof -
  have "filter (\<lambda>(v, c). k \<le> int c) cn = []"
    using assms(2) by (auto simp: filter_empty_conv)
  then show ?thesis
    using assms(1) by (simp add: k_core_def subgraph_empty)
qed

lemma k_core_nodes_subset:
  assumes "k_core G k = Inr core"
  shows "fst ` set (g_node core) \<subseteq> fst ` set (g_node G)"
proof -
  from assms obtain S where "core = subgraph G S"
    by (auto simp: k_core_def split: sum.splits)
  then show ?thesis
    by (simp add: keys_subgraph)
qed

section \<open>The run\<close>

lemma main_missing:
  "\<not> path_exists env (arg_graphml a) \<Longrightarrow>
   main env a =
     \<lparr>stdout = [],
      stderr = [''ERROR: GraphML not found at '' @ path_resolve env (arg_graphml a)],
      layouts = [], figures = [], status = Exit1\<rparr>"
  by (simp add: main_def)

lemma main_reads:
  "path_exists env (arg_graphml a) \<Longrightarrow> read_graphml env (arg_graphml a) = Inr Graw \<Longrightarrow>
   main env a = run env a (simplify Graw)"
  by (simp add: main_def)

lemma eig_section_caught:
  "eigenvector_centrality env G = Inl e \<Longrightarrow> is_NetworkXException (cls e) \<Longrightarrow>
   eig_section env a G = ([nl ''[Eigenvector centrality skipped: '' @ msg e @ '']''], None)"
  by (simp add: eig_section_def)

lemma run_completes:
  assumes "report_head env a G = (out, None)" and "eig_section env a G = (out', None)"
  shows "run env a G =
     (if arg_plot a then (plot env a G)\<lparr>stdout := out @ out' @ stdout (plot env a G)\<rparr>
      else \<lparr>stdout = out @ out', stderr = [], layouts = [], figures = [], status = Exit0\<rparr>)"
  using assms by (simp add: run_def Let_def)

lemma run_sections_ok:
  "run_sections t [(t1, Inr d1), (t2, Inr d2), (t3, Inr d3), (t4, Inr d4)] =
     (t1 # rows fmt6 (top_n d1 t) @ t2 # rows fmt6 (top_n d2 t) @ t3 # rows fmt6 (top_n d3 t)
        @ t4 # rows fmt6 (top_n d4 t), None)"
  by simp

lemma report_head_ok:
  assumes "is_connected G = Inr c"
    and "degree_centrality env G = Inr dc" and "closeness_centrality env G = Inr cl"
    and "betweenness_centrality env G = Inr bt" and "pagerank env G = Inr pr"
  shows "report_head env a G =
     (basic_lines G
        @ [''Connected: '' @ show_bool c, nl ''=== Top by Degree (most interactions) ==='']
        @ rows show_int (top_n (degree G) (arg_top a))
        @ [nl ''=== Centralities (popularity/influence) ==='']
        @ nl ''Top Degree Centrality:'' # rows fmt6 (top_n dc (arg_top a))
        @ nl ''Top Closeness Centrality:'' # rows fmt6 (top_n cl (arg_top a))
        @ nl ''Top Betweenness Centrality:'' # rows fmt6 (top_n bt (arg_top a))
        @ nl ''Top PageRank:'' # rows fmt6 (top_n pr (arg_top a)), None)"
  using assms by (simp add: report_head_def Let_def)

lemma run_outcome_cases:
  "status (run env a (simplify Graw)) = Exit0 \<Longrightarrow>
   \<exists>out out'. report_head env a (simplify Graw) = (out, None) \<and>
              eig_section env a (simplify Graw) = (out', None)"
  by (auto simp: run_def Let_def split: prod.splits option.splits if_splits)

lemma top2_ex_path: "top_n (degree (simplify ex_path)) 2 = [(''B'', 2), (''C'', 2)]"
  by (simp add: degree_ex_path top_n_def slice_to_def rank_key_def less_eq_prod_def)

lemma basic_lines_ex:
  "basic_lines (simplify ex_path) =
     [''=== Basic Statistics ==='', ''Nodes: 4'', ''Edges: 3'', ''Density: 0.500000'']"
  by (simp add: basic_lines_def nodes_ex_path edges_ex_path density_ex_path show_int_def
      fmt6_def round_half_even_def Let_def digits_small digits_large)

lemma round_two_thirds: "round_half_even (2000000 / 3) = 666667"
  by code_simp

lemma fmt6_two_thirds: "fmt6 (2 / 3) = ''0.666667''"
  by (simp add: fmt6_def Let_def round_two_thirds digits_small digits_large)

lemma report_head_ex:
  "report_head ex_env ex_args (simplify ex_path) =
     ([''=== Basic Statistics ==='', ''Nodes: 4'', ''Edges: 3'', ''Density: 0.500000'',
       ''Connected: True'',
       nl ''=== Top by Degree (most interactions) ==='', ''1. B: 2'', ''2. C: 2'',
       nl ''=== Centralities (popularity/influence) ==='',
       nl ''Top Degree Centrality:'', ''1. B: 0.666667'', ''2. C: 0.666667'',
       nl ''Top Closeness Centrality:'', nl ''Top Betweenness Centrality:'',
       nl ''Top PageRank:''], None)"
proof -
  have dc: "degree_centrality ex_env (simplify ex_path) =
      Inr [(''A'', 1 / 3), (''B'', 2 / 3), (''C'', 2 / 3), (''D'', 1 / 3)]"
    by (simp add: ex_env_def degree_ex_path)
  have t: "top_n [(''A'', 1 / 3), (''B'', 2 / 3), (''C'', 2 / 3), (''D'', 1 / 3 :: rat)] 2 =
      [(''B'', 2 / 3), (''C'', 2 / 3)]"
    by (simp add: top_n_def slice_to_def rank_key_def less_eq_prod_def)
  have e: "top_n ([] :: (string \<times> rat) list) 2 = []"
    by (simp add: top_n_def slice_to_def)
  have r: "rows fmt6 [(''B'', 2 / 3), (''C'', 2 / 3)] = [''1. B: 0.666667'', ''2. C: 0.666667'']"
    by (simp add: rows_def show_int_def fmt6_two_thirds digits_small digits_large)
  have r2: "rows show_int [(''B'', 2), (''C'', 2)] = [''1. B: 2'', ''2. C: 2'']"
    by (simp add: rows_def show_int_def digits_small digits_large)
  have others: "closeness_centrality ex_env (simplify ex_path) = Inr []"
    "betweenness_centrality ex_env (simplify ex_path) = Inr []"
    "pagerank ex_env (simplify ex_path) = Inr []"
    by (simp_all add: ex_env_def)
  have a: "arg_top ex_args = 2"
    by (simp add: ex_args_def)
  show ?thesis
    unfolding report_head_ok[OF connected_ex_path dc others] a top2_ex_path t e r r2 basic_lines_ex
    by (simp add: show_bool_def rows_def)
qed

lemma eig_section_ex:
  "eig_section ex_env ex_args (simplify ex_path) =
     ([nl ''[Eigenvector centrality skipped: power iteration failed to converge within 1000 iterations]''], None)"
  by (simp add: eig_section_def ex_env_def nl_def)

lemma plot_ex:
  "\<exists>sizes sizes_core.
     plot ex_env ex_args (simplify ex_path) =
       \<lparr>stdout = [''Wrote marvel_network_full.png'', ''Wrote marvel_network_kcore20.png''],
        stderr = [],
        layouts = [(simplify ex_path, 42)],
        figures = [full_figure ex_args (simplify ex_path) (spring_layout ex_env (simplify ex_path) 42) sizes,
                   core_figure ex_args 20 empty_graph (spring_layout ex_env (simplify ex_path) 42) sizes_core],
        status = Exit0\<rparr>"
proof -
  have k: "arg_k ex_args = 20" "arg_seed ex_args = 42" "arg_prefix ex_args = ''marvel_network''"
    by (simp_all add: ex_args_def)
  have s: "show_int 20 = ''20''"
    by (simp add: show_int_def digits_small digits_large)
  from plot_simplify[of ex_path ex_args ex_env] show ?thesis
    unfolding k k_core_ex_path s by auto
qed

lemma main_ex:
  "\<exists>sizes sizes_core.
     main ex_env ex_args =
       \<lparr>stdout =
          [''=== Basic Statistics ==='', ''Nodes: 4'', ''Edges: 3'', ''Density: 0.500000'',
           ''Connected: True'',
           nl ''=== Top by Degree (most interactions) ==='', ''1. B: 2'', ''2. C: 2'',
           nl ''=== Centralities (popularity/influence) ==='',
           nl ''Top Degree Centrality:'', ''1. B: 0.666667'', ''2. C: 0.666667'',
           nl ''Top Closeness Centrality:'', nl ''Top Betweenness Centrality:'',
           nl ''Top PageRank:'',
           nl ''[Eigenvector centrality skipped: power iteration failed to converge within 1000 iterations]'',
           ''Wrote marvel_network_full.png'', ''Wrote marvel_network_kcore20.png''],
        stderr = [],
        layouts = [(simplify ex_path, 42)],
        figures = [full_figure ex_args (simplify ex_path) (spring_layout ex_env (simplify ex_path) 42) sizes,
                   core_figure ex_args 20 empty_graph (spring_layout ex_env (simplify ex_path) 42) sizes_core],
        status = Exit0\<rparr>"
proof -
  have m: "main ex_env ex_args = run ex_env ex_args (simplify ex_path)"
    by (rule main_reads) (simp_all add: ex_env_def ex_args_def)
  have p: "arg_plot ex_args"
    by (simp add: ex_args_def)
  from plot_ex obtain sizes sizes_core where
    "plot ex_env ex_args (simplify ex_path) =
       \<lparr>stdout = [''Wrote marvel_network_full.png'', ''Wrote marvel_network_kcore20.png''],
        stderr = [],
        layouts = [(simplify ex_path, 42)],
        figures = [full_figure ex_args (simplify ex_path) (spring_layout ex_env (simplify ex_path) 42) sizes,
                   core_figure ex_args 20 empty_graph (spring_layout ex_env (simplify ex_path) 42) sizes_core],
        status = Exit0\<rparr>"
    by blast
  then show ?thesis
    unfolding m run_completes[OF report_head_ex eig_section_ex] using p by auto
qed


lemma labels_pos: "(p, n) \<in> set (labels lt deg pos) \<Longrightarrow> p = pos n"
  by (auto simp: labels_def split: if_splits)

section \<open>Counting nodes and edges\<close>










lemma number_of_nodes_card: "graph_inv G \<Longrightarrow> number_of_nodes G = card (node_set G)"
  by (simp add: graph_inv_def number_of_nodes_def node_set_def distinct_card flip: set_map)

section \<open>Connectivity\<close>

text \<open>The search of \<open>is_connected\<close> sees exactly the nodes reachable from its start, so the
  flag says whether every node is reachable from the first one.\<close>

lemma nbrs_edge_rel: "v \<in> fst ` set (nbrs G u) \<longleftrightarrow> (u, v) \<in> edge_rel G"
  by (simp add: edge_rel_def edge_data_def map_of_eq_None_iff)

lemma set_bfs_step: "set (bfs_step G xs) = set xs \<union> edge_rel G `` set xs"
proof -
  have "set (concat (map (\<lambda>v. map fst (nbrs G v)) xs)) = (\<Union>u \<in> set xs. fst ` set (nbrs G u))"
    by simp
  also have "\<dots> = (\<Union>u \<in> set xs. {v. (u, v) \<in> edge_rel G})"
    using nbrs_edge_rel[of _ G] by blast
  also have "\<dots> = edge_rel G `` set xs"
    by blast
  finally have "set (concat (map (\<lambda>v. map fst (nbrs G v)) xs)) = edge_rel G `` set xs" .
  then show ?thesis
    by (simp add: bfs_step_def)
qed

lemma set_bfs_iter:
  "set ((bfs_step G ^^ n) xs) = ((\<lambda>S. S \<union> edge_rel G `` S) ^^ n) (set xs)"
  by (induction n) (simp_all add: set_bfs_step)

lemma distinct_bfs_iter: "distinct xs \<Longrightarrow> distinct ((bfs_step G ^^ n) xs)"
  by (cases n) (simp_all add: bfs_step_def)

lemma edge_rel_nodes:
  assumes "graph_inv G" and "(u, v) \<in> edge_rel G"
  shows "u \<in> node_set G" and "v \<in> node_set G"
proof -
  have key: "x \<in> node_set G" if "(x, y) \<in> edge_rel G" for x y
  proof -
    from that have "map_of (g_adj G) x \<noteq> None"
      by (auto simp: edge_rel_def edge_data_def nbrs_def adj_get_def split: option.splits)
    then have "x \<in> fst ` set (g_adj G)"
      by (simp add: map_of_eq_None_iff)
    with assms(1) show ?thesis
      by (simp add: graph_inv_def node_set_def)
  qed
  from assms(2) show "u \<in> node_set G" by (rule key)
  from assms have "(v, u) \<in> edge_rel G"
    by (simp add: edge_rel_def graph_inv_def)
  then show "v \<in> node_set G" by (rule key)
qed

lemma closure_iter:
  fixes r :: "('a \<times> 'a) set"
  assumes "finite V" and "s \<in> V" and "\<And>u v. (u, v) \<in> r \<Longrightarrow> v \<in> V" and "card V \<le> n"
  shows "((\<lambda>S. S \<union> r `` S) ^^ n) {s} = r\<^sup>* `` {s}"
proof -
  let ?F = "\<lambda>S. S \<union> r `` S"
  let ?S = "\<lambda>i. (?F ^^ i) {s}"
  have sub_reach: "?S i \<subseteq> r\<^sup>* `` {s}" for i
    by (induction i) (auto intro: rtrancl_into_rtrancl)
  have sub_V: "?S i \<subseteq> V" for i
    using assms(2,3) by (induction i) auto
  have s_in: "s \<in> ?S i" for i
    by (induction i) auto
  have progress: "?F (?S i) = ?S i \<or> i + 1 \<le> card (?S i)" for i
  proof (induction i)
    case 0
    then show ?case by simp
  next
    case (Suc i)
    show ?case
    proof (cases "?F (?S i) = ?S i")
      case True
      then show ?thesis by simp
    next
      case False
      with Suc have c: "i + 1 \<le> card (?S i)" by blast
      from False have "?S i \<subset> ?S (Suc i)" by auto
      moreover have "finite (?S (Suc i))"
        using sub_V[of "Suc i"] assms(1) by (rule finite_subset)
      ultimately have "card (?S i) < card (?S (Suc i))"
        by (rule psubset_card_mono[rotated])
      with c show ?thesis by simp
    qed
  qed
  have "\<not> n + 1 \<le> card (?S n)"
    using card_mono[OF assms(1) sub_V[of n]] assms(4) by simp
  with progress[of n] have closed: "?F (?S n) = ?S n"
    by blast
  have "r\<^sup>* `` {s} \<subseteq> ?S n"
  proof
    fix v assume "v \<in> r\<^sup>* `` {s}"
    then have "(s, v) \<in> r\<^sup>*" by simp
    then show "v \<in> ?S n"
    proof (induction rule: rtrancl_induct)
      case base
      show ?case by (rule s_in)
    next
      case (step y z)
      then have "z \<in> ?F (?S n)" by blast
      with closed show ?case by simp
    qed
  qed
  with sub_reach[of n] show ?thesis by blast
qed

lemma plain_bfs_reachable:
  assumes "graph_inv G" and "s \<in> node_set G"
  shows "set (plain_bfs G s) = (edge_rel G)\<^sup>* `` {s}" and "distinct (plain_bfs G s)"
proof -
  have "finite (node_set G)"
    by (simp add: node_set_def)
  moreover have "card (node_set G) \<le> number_of_nodes G"
    using assms(1) by (simp add: number_of_nodes_card)
  ultimately have "((\<lambda>S. S \<union> edge_rel G `` S) ^^ number_of_nodes G) {s} = (edge_rel G)\<^sup>* `` {s}"
    using assms(2) edge_rel_nodes(2)[OF assms(1)] by (intro closure_iter) auto
  then show "set (plain_bfs G s) = (edge_rel G)\<^sup>* `` {s}"
    by (simp add: plain_bfs_def set_bfs_iter)
  show "distinct (plain_bfs G s)"
    by (simp add: plain_bfs_def distinct_bfs_iter)
qed

lemma is_connected_iff:
  assumes "graph_inv G" and "g_node G = (s, a) # rest"
  shows "is_connected G = Inr (\<forall>v \<in> node_set G. (s, v) \<in> (edge_rel G)\<^sup>*)"
proof -
  have s: "s \<in> node_set G"
    using assms(2) by (simp add: node_set_def)
  note b = plain_bfs_reachable[OF assms(1) s]
  have sub: "(edge_rel G)\<^sup>* `` {s} \<subseteq> node_set G"
  proof
    fix v assume "v \<in> (edge_rel G)\<^sup>* `` {s}"
    then have "(s, v) \<in> (edge_rel G)\<^sup>*" by simp
    then show "v \<in> node_set G"
      by (induction rule: rtrancl_induct) (auto intro: s edge_rel_nodes(2)[OF assms(1)])
  qed
  have fin: "finite (node_set G)"
    by (simp add: node_set_def)
  have "length (plain_bfs G s) = card ((edge_rel G)\<^sup>* `` {s})"
    using b by (metis distinct_card)
  moreover have "card ((edge_rel G)\<^sup>* `` {s}) = card (node_set G) \<longleftrightarrow>
      (edge_rel G)\<^sup>* `` {s} = node_set G"
    using card_subset_eq[OF fin sub] by auto
  moreover have "(edge_rel G)\<^sup>* `` {s} = node_set G \<longleftrightarrow> (\<forall>v \<in> node_set G. (s, v) \<in> (edge_rel G)\<^sup>*)"
    using sub by auto
  ultimately show ?thesis
    using assms by (simp add: is_connected_def number_of_nodes_card)
qed

section \<open>The k-core is the largest subgraph of minimum degree k\<close>

lemma set_prune:
  assumes "graph_inv G"
  shows "set (prune G k xs) = {v \<in> set xs. k \<le> card {w \<in> set xs. (v, w) \<in> edge_rel G}}"
proof -
  have "length (filter (\<lambda>w. w \<in> set xs) (map fst (nbrs G v))) = card {w \<in> set xs. (v, w) \<in> edge_rel G}" for v
  proof -
    have d: "distinct (map fst (nbrs G v))"
      using assms by (simp add: graph_inv_def)
    have "{w. w \<in> set xs} \<inter> set (map fst (nbrs G v)) = {w \<in> set xs. (v, w) \<in> edge_rel G}"
      using nbrs_edge_rel[of _ G v] by auto
    with distinct_length_filter[OF d, of "\<lambda>w. w \<in> set xs"] show ?thesis
      by simp
  qed
  then show ?thesis
    by (simp add: prune_def)
qed

lemma shrink_iter:
  fixes D :: "'a set \<Rightarrow> 'a set"
  assumes "finite T" and "\<And>S. D S \<subseteq> S" and "card T \<le> n"
  shows "D ((D ^^ n) T) = (D ^^ n) T"
proof -
  let ?S = "\<lambda>i. (D ^^ i) T"
  have sub: "?S i \<subseteq> T" for i
    using assms(2) by (induction i) auto
  have fin: "finite (?S i)" for i
    using sub assms(1) by (rule finite_subset)
  have progress: "D (?S i) = ?S i \<or> card (?S i) + i \<le> card T" for i
  proof (induction i)
    case 0
    then show ?case by simp
  next
    case (Suc i)
    show ?case
    proof (cases "D (?S i) = ?S i")
      case True
      then show ?thesis by simp
    next
      case False
      with Suc have c: "card (?S i) + i \<le> card T" by blast
      from False assms(2)[of "?S i"] have "?S (Suc i) \<subset> ?S i" by auto
      then have "card (?S (Suc i)) < card (?S i)"
        using fin[of i] by (rule psubset_card_mono[rotated])
      with c show ?thesis by simp
    qed
  qed
  show ?thesis
  proof (cases "D (?S n) = ?S n")
    case True
    then show ?thesis .
  next
    case False
    with progress[of n] assms(3) have "card (?S n) = 0" by simp
    with fin[of n] have "?S n = {}" by simp
    with assms(2)[of "{}"] show ?thesis by auto
  qed
qed

lemma k_core_nodes_largest:
  assumes "graph_inv G"
  shows "min_degree_in G k (set (k_core_nodes G k))"
    and "min_degree_in G k S \<Longrightarrow> S \<subseteq> set (k_core_nodes G k)"
proof -
  let ?E = "edge_rel G"
  let ?D = "\<lambda>T. {v \<in> T. k \<le> card {w \<in> T. (v, w) \<in> ?E}}"
  let ?T = "fst ` set (g_adj G)"
  let ?N = "number_of_nodes G"
  have iter: "set ((prune G k ^^ i) xs) = (?D ^^ i) (set xs)" for i xs
    by (induction i) (simp_all add: set_prune[OF assms])
  have core: "set (k_core_nodes G k) = (?D ^^ ?N) ?T"
    by (simp add: k_core_nodes_def iter)
  have cardT: "card ?T \<le> ?N"
    using assms by (simp add: graph_inv_def number_of_nodes_card node_set_def)
  have closed: "?D ((?D ^^ ?N) ?T) = (?D ^^ ?N) ?T"
    by (rule shrink_iter[OF _ _ cardT]) auto
  have sub: "(?D ^^ i) ?T \<subseteq> ?T" for i
    by (induction i) auto
  show "min_degree_in G k (set (k_core_nodes G k))"
    unfolding min_degree_in_def core using sub[of ?N] closed by blast
  show "S \<subseteq> set (k_core_nodes G k)" if S: "min_degree_in G k S"
  proof -
    have "S \<subseteq> (?D ^^ i) ?T" for i
    proof (induction i)
      case 0
      from S show ?case by (simp add: min_degree_in_def)
    next
      case (Suc i)
      have fin: "finite ((?D ^^ i) ?T)"
        using sub[of i] by (rule finite_subset) simp
      show ?case
      proof
        fix v assume v: "v \<in> S"
        with S have "k \<le> card {w \<in> S. (v, w) \<in> ?E}"
          by (simp add: min_degree_in_def)
        also have "\<dots> \<le> card {w \<in> (?D ^^ i) ?T. (v, w) \<in> ?E}"
          using Suc fin by (intro card_mono) auto
        finally show "v \<in> (?D ^^ Suc i) ?T"
          using v Suc by auto
      qed
    qed
    then show ?thesis by (simp add: core)
  qed
qed

text \<open>The core number is the largest \<open>k\<close> whose \<open>k\<close>-core holds the node.\<close>

lemma core_of_Max:
  "core_of G n = Max (insert 0 {k. k \<le> number_of_nodes G \<and> n \<in> set (k_core_nodes G k)})"
proof -
  let ?ks = "filter (\<lambda>k. n \<in> set (k_core_nodes G k)) [0..<Suc (number_of_nodes G)]"
  have "set ?ks = {k. k \<le> number_of_nodes G \<and> n \<in> set (k_core_nodes G k)}"
    unfolding set_filter set_upt by auto
  moreover have "core_of G n = Max (set (0 # ?ks))"
    unfolding core_of_def by (rule Max.set_eq_fold[symmetric])
  ultimately show ?thesis
    by (simp only: list.set)
qed

lemma core_of_largest:
  assumes "graph_inv G" and "n \<in> node_set G"
  shows "n \<in> set (k_core_nodes G (core_of G n))"
    and "n \<in> set (k_core_nodes G k) \<Longrightarrow> k \<le> core_of G n"
proof -
  define K where "K = {k. k \<le> number_of_nodes G \<and> n \<in> set (k_core_nodes G k)}"
  have c: "core_of G n = Max (insert 0 K)"
    unfolding K_def by (rule core_of_Max)
  have finK: "finite K"
    unfolding K_def by simp
  have keys: "fst ` set (g_adj G) = node_set G"
    using assms(1) by (simp add: graph_inv_def node_set_def)
  have "min_degree_in G 0 (node_set G)"
    by (simp add: min_degree_in_def keys)
  then have "n \<in> set (k_core_nodes G 0)"
    using k_core_nodes_largest(2)[OF assms(1)] assms(2) by blast
  then have z: "0 \<in> K"
    by (simp add: K_def)
  then have ins: "insert 0 K = K"
    by blast
  have "Max K \<in> K"
    using finK z by (intro Max_in) auto
  then show "n \<in> set (k_core_nodes G (core_of G n))"
    unfolding c ins by (simp add: K_def)
  show "k \<le> core_of G n" if k: "n \<in> set (k_core_nodes G k)"
  proof -
    let ?S = "set (k_core_nodes G k)"
    have m: "min_degree_in G k ?S"
      by (rule k_core_nodes_largest(1)[OF assms(1)])
    then have sub: "?S \<subseteq> node_set G"
      by (simp add: min_degree_in_def keys)
    have fin: "finite (node_set G)"
      by (simp add: node_set_def)
    from m k have "k \<le> card {w \<in> ?S. (n, w) \<in> edge_rel G}"
      by (simp add: min_degree_in_def)
    also have "\<dots> \<le> card (node_set G)"
      using sub by (intro card_mono[OF fin]) auto
    also have "\<dots> = number_of_nodes G"
      using assms(1) by (simp add: number_of_nodes_card)
    finally have "k \<in> K"
      using k by (simp add: K_def)
    then have "k \<le> Max K"
      using finK by (intro Max_ge)
    then show ?thesis
      by (simp only: c ins)
  qed
qed

section \<open>Claims\<close>




text \<open>
  C2. For every score mapping (its items have distinct node identifiers) and every
  non-negative count \<open>k\<close>, the ranking returned by \<open>top_n\<close> is sorted by strictly
  descending score, ties broken by strictly ascending node identifier in the
  lexicographic order of strings, and its length is \<open>min k N\<close>. The ranking is the
  first \<open>k\<close> entries of the full ranking, which holds exactly the items of the mapping.
\<close>

theorem top_n_ranking:
  assumes "distinct (map fst d)" and "0 \<le> k"
  shows "sorted_wrt ranks_before (top_n d k) \<and>
         length (top_n d k) = min (nat k) (length d) \<and>
         top_n d k = take (nat k) (top_n d (int (length d))) \<and>
         set (top_n d (int (length d))) = set d"
proof (intro conjI)
  show "sorted_wrt ranks_before (top_n d k)"
    using assms by (simp add: top_n_nonneg sorted_wrt_take ranking_sorted)
  show "length (top_n d k) = min (nat k) (length d)"
    using assms(2) by (simp add: top_n_nonneg)
  show "top_n d k = take (nat k) (top_n d (int (length d)))"
    using assms(2) by (simp add: top_n_nonneg top_n_all)
  show "set (top_n d (int (length d))) = set d"
    by (simp add: top_n_all)
qed

theorem top_n_ranking_witness:
  "distinct (map fst ex_scores) \<and> (0::int) \<le> 2 \<and>
   top_n ex_scores 2 = [(''B'', 2), (''C'', 2)] \<and>
   sorted_wrt ranks_before (top_n ex_scores 2) \<and>
   length (top_n ex_scores 2) = min (nat 2) (length ex_scores)"
proof -
  have d: "distinct (map fst ex_scores)"
    by (simp add: ex_scores_def)
  have v: "top_n ex_scores 2 = [(''B'', 2), (''C'', 2)]"
    by (simp add: top_n_def slice_to_def ex_scores_def rank_key_def less_eq_prod_def)
  have h: "(0::int) \<le> 2"
    by simp
  from top_n_ranking[OF d h]
  have "sorted_wrt ranks_before (top_n ex_scores 2)"
    and "length (top_n ex_scores 2) = min (nat 2) (length ex_scores)"
    by blast+
  with d h v show ?thesis
    by blast
qed

text \<open>
  C9. For every score mapping over \<open>N\<close> nodes and every negative count \<open>t\<close>, \<open>top_n\<close>
  returns (it is a total function: the slice never raises) the first \<open>N - |t|\<close> entries
  of the full ranking when \<open>|t| < N\<close> and the empty list when \<open>|t| \<ge> N\<close>; the number of
  entries is never \<open>min t N\<close>. The subtraction below is the truncating one of the
  natural numbers.
\<close>

theorem top_n_negative:
  assumes "t < 0"
  shows "top_n d t = take (length d - nat (- t)) (top_n d (int (length d))) \<and>
         length (top_n d t) = length d - nat (- t) \<and>
         (length d \<le> nat (- t) \<longrightarrow> top_n d t = []) \<and>
         int (length (top_n d t)) \<noteq> min t (int (length d))"
  using assms by (simp add: top_n_neg top_n_all)

theorem top_n_negative_witness:
  "(- 1 :: int) < 0 \<and>
   top_n ex_scores (- 1) = [(''B'', 2), (''C'', 2), (''A'', 1)] \<and>
   top_n ex_scores (- 4) = [] \<and>
   top_n ex_scores (- 1) = take (length ex_scores - nat (- (- 1))) (top_n ex_scores (int (length ex_scores)))"
proof -
  have v: "top_n ex_scores (- 1) = [(''B'', 2), (''C'', 2), (''A'', 1)]"
    by (simp add: top_n_def slice_to_def ex_scores_def rank_key_def less_eq_prod_def)
  have l: "length ex_scores = 4"
    by (simp add: ex_scores_def)
  have h: "(- 1 :: int) < 0"
    by simp
  from top_n_negative[OF h, of ex_scores]
  have a: "top_n ex_scores (- 1) =
      take (length ex_scores - nat (- (- 1))) (top_n ex_scores (int (length ex_scores)))"
    by blast
  have "top_n ex_scores (- 4) = []"
    using top_n_negative[of "- 4" ex_scores] l by simp
  with h v a show ?thesis
    by blast
qed

text \<open>
  C3, evaluated on the path \<open>A - B - C - D\<close>, whose largest core number is 1, with the
  default \<^verbatim>\<open>--k 20\<close>: the run prints no fallback notice, the figure of the core shows the
  empty graph, and its file is named after 20, not after the largest core number.
\<close>

theorem kcore_fallback_not_taken:
  "core_number (simplify ex_path) = Inr [(''A'', 1), (''B'', 1), (''C'', 1), (''D'', 1)] \<and>
   arg_k ex_args = 20 \<and>
   status (main ex_env ex_args) = Exit0 \<and>
   drop 16 (stdout (main ex_env ex_args)) =
     [''Wrote marvel_network_full.png'', ''Wrote marvel_network_kcore20.png''] \<and>
   map fig_file (figures (main ex_env ex_args)) =
     [''marvel_network_full.png'', ''marvel_network_kcore20.png''] \<and>
   map fig_graph (figures (main ex_env ex_args)) = [simplify ex_path, empty_graph]"
proof -
  have k: "arg_k ex_args = 20" and p: "arg_prefix ex_args = ''marvel_network''"
    and s: "show_int 20 = ''20''"
    by (simp_all add: ex_args_def show_int_def digits_small digits_large)
  from main_ex obtain sizes sizes_core where
    "main ex_env ex_args =
       \<lparr>stdout =
          [''=== Basic Statistics ==='', ''Nodes: 4'', ''Edges: 3'', ''Density: 0.500000'',
           ''Connected: True'',
           nl ''=== Top by Degree (most interactions) ==='', ''1. B: 2'', ''2. C: 2'',
           nl ''=== Centralities (popularity/influence) ==='',
           nl ''Top Degree Centrality:'', ''1. B: 0.666667'', ''2. C: 0.666667'',
           nl ''Top Closeness Centrality:'', nl ''Top Betweenness Centrality:'',
           nl ''Top PageRank:'',
           nl ''[Eigenvector centrality skipped: power iteration failed to converge within 1000 iterations]'',
           ''Wrote marvel_network_full.png'', ''Wrote marvel_network_kcore20.png''],
        stderr = [],
        layouts = [(simplify ex_path, 42)],
        figures = [full_figure ex_args (simplify ex_path) (spring_layout ex_env (simplify ex_path) 42) sizes,
                   core_figure ex_args 20 empty_graph (spring_layout ex_env (simplify ex_path) 42) sizes_core],
        status = Exit0\<rparr>"
    by blast
  then show ?thesis
    by (simp add: core_number_ex_path k p s full_figure_def core_figure_def)
qed



text \<open>
  C5. Whenever the run reaches the eigenvector section (the file exists and parses, the
  graph is not the null graph, so that \<^verbatim>\<open>nx.is_connected\<close> returns, and the four
  centralities before it return) and the eigenvector centrality raises an exception of the
  hierarchy of \<^verbatim>\<open>NetworkXException\<close> (failed convergence, undefined on this graph), the
  program does not abort: every section before it is printed, then the one notice with the
  failure message in place of the eigenvector section, then the two lines of the plots
  when plotting is requested, both figures are saved, and the run ends with status 0.
\<close>

theorem eigenvector_failure_is_caught:
  assumes "path_exists env (arg_graphml a)"
    and "read_graphml env (arg_graphml a) = Inr Graw"
    and "is_connected (simplify Graw) = Inr c"
    and "degree_centrality env (simplify Graw) = Inr dc"
    and "closeness_centrality env (simplify Graw) = Inr cl"
    and "betweenness_centrality env (simplify Graw) = Inr bt"
    and "pagerank env (simplify Graw) = Inr pr"
    and "eigenvector_centrality env (simplify Graw) = Inl e"
    and "is_NetworkXException (cls e)"
  shows "status (main env a) = Exit0 \<and>
         stdout (main env a) =
           basic_lines (simplify Graw)
             @ [''Connected: '' @ show_bool c, nl ''=== Top by Degree (most interactions) ==='']
             @ rows show_int (top_n (degree (simplify Graw)) (arg_top a))
             @ [nl ''=== Centralities (popularity/influence) ==='']
             @ nl ''Top Degree Centrality:'' # rows fmt6 (top_n dc (arg_top a))
             @ nl ''Top Closeness Centrality:'' # rows fmt6 (top_n cl (arg_top a))
             @ nl ''Top Betweenness Centrality:'' # rows fmt6 (top_n bt (arg_top a))
             @ nl ''Top PageRank:'' # rows fmt6 (top_n pr (arg_top a))
             @ [nl ''[Eigenvector centrality skipped: '' @ msg e @ '']'']
             @ (if arg_plot a
                then [''Wrote '' @ arg_prefix a @ ''_full.png'',
                      ''Wrote '' @ arg_prefix a @ ''_kcore'' @ show_int (arg_k a) @ ''.png'']
                else []) \<and>
         length (figures (main env a)) = (if arg_plot a then 2 else 0)"
proof -
  have m: "main env a = run env a (simplify Graw)"
    using assms(1,2) by (rule main_reads)
  note r = report_head_ok[OF assms(3-7), of a]
  have e: "eig_section env a (simplify Graw) =
      ([nl ''[Eigenvector centrality skipped: '' @ msg e @ '']''], None)"
    using assms(8,9) by (rule eig_section_caught)
  show ?thesis
  proof (cases "arg_plot a")
    case True
    from plot_simplify[of Graw a env] obtain core sizes sizes_core where
      "plot env a (simplify Graw) =
       \<lparr>stdout = [''Wrote '' @ arg_prefix a @ ''_full.png'',
                  ''Wrote '' @ arg_prefix a @ ''_kcore'' @ show_int (arg_k a) @ ''.png''],
        stderr = [],
        layouts = [(simplify Graw, arg_seed a)],
        figures = [full_figure a (simplify Graw) (spring_layout env (simplify Graw) (arg_seed a)) sizes,
                   core_figure a (arg_k a) core (spring_layout env (simplify Graw) (arg_seed a)) sizes_core],
        status = Exit0\<rparr>"
      by blast
    with True show ?thesis
      unfolding m run_completes[OF r e] by simp
  next
    case False
    then show ?thesis
      unfolding m run_completes[OF r e] by simp
  qed
qed

theorem eigenvector_failure_is_caught_witness:
  "path_exists ex_env (arg_graphml ex_args) \<and>
   read_graphml ex_env (arg_graphml ex_args) = Inr ex_path \<and>
   eigenvector_centrality ex_env (simplify ex_path) =
     Inl (Exn PowerIterationFailedConvergence ''power iteration failed to converge within 1000 iterations'') \<and>
   is_NetworkXException PowerIterationFailedConvergence \<and>
   status (main ex_env ex_args) = Exit0 \<and>
   length (figures (main ex_env ex_args)) = 2 \<and>
   stdout (main ex_env ex_args) =
     [''=== Basic Statistics ==='', ''Nodes: 4'', ''Edges: 3'', ''Density: 0.500000'',
      ''Connected: True'',
      nl ''=== Top by Degree (most interactions) ==='', ''1. B: 2'', ''2. C: 2'',
      nl ''=== Centralities (popularity/influence) ==='',
      nl ''Top Degree Centrality:'', ''1. B: 0.666667'', ''2. C: 0.666667'',
      nl ''Top Closeness Centrality:'', nl ''Top Betweenness Centrality:'',
      nl ''Top PageRank:'',
      nl ''[Eigenvector centrality skipped: power iteration failed to converge within 1000 iterations]'',
      ''Wrote marvel_network_full.png'', ''Wrote marvel_network_kcore20.png'']"
proof -
  have h1: "path_exists ex_env (arg_graphml ex_args)"
    by (simp add: ex_env_def ex_args_def)
  have h2: "read_graphml ex_env (arg_graphml ex_args) = Inr ex_path"
    by (simp add: ex_env_def)
  have h4: "eigenvector_centrality ex_env (simplify ex_path) =
     Inl (Exn PowerIterationFailedConvergence ''power iteration failed to converge within 1000 iterations'')"
    by (simp add: ex_env_def)
  have h5: "is_NetworkXException
     (cls (Exn PowerIterationFailedConvergence ''power iteration failed to converge within 1000 iterations''))"
    by simp
  have a: "arg_plot ex_args" "arg_prefix ex_args = ''marvel_network''" "show_int (arg_k ex_args) = ''20''"
    by (simp_all add: ex_args_def show_int_def digits_small digits_large)
  have dc: "degree_centrality ex_env (simplify ex_path) =
      Inr [(''A'', 1 / 3), (''B'', 2 / 3), (''C'', 2 / 3), (''D'', 1 / 3)]"
    by (simp add: ex_env_def degree_ex_path)
  have others: "closeness_centrality ex_env (simplify ex_path) = Inr []"
    "betweenness_centrality ex_env (simplify ex_path) = Inr []"
    "pagerank ex_env (simplify ex_path) = Inr []"
    by (simp_all add: ex_env_def)
  note t = eigenvector_failure_is_caught[OF h1 h2 connected_ex_path dc others h4 h5]
  from t have s: "status (main ex_env ex_args) = Exit0"
    by blast
  from t a have f: "length (figures (main ex_env ex_args)) = 2"
    by simp
  from main_ex h1 h2 h4 s f show ?thesis
    by auto
qed



text \<open>
  C7. For the graph with the nodes \<open>A, B, C, D\<close> and the edges \<open>(A, B), (B, C), (C, D)\<close>:
  the density is 0.5 and is printed as \<^verbatim>\<open>0.500000\<close>, the graph is connected, and the
  first two entries of the degree ranking are \<open>B\<close> with degree 2 and then \<open>C\<close> with
  degree 2, ahead of \<open>A\<close> and \<open>D\<close> of degree 1.
\<close>

theorem path_graph_scenario:
  "g_node (simplify ex_path) = [(''A'', Map.empty), (''B'', Map.empty), (''C'', Map.empty), (''D'', Map.empty)] \<and>
   number_of_edges (simplify ex_path) = 3 \<and>
   density (simplify ex_path) = 1 / 2 \<and>
   is_connected (simplify ex_path) = Inr True \<and>
   degree (simplify ex_path) = [(''A'', 1), (''B'', 2), (''C'', 2), (''D'', 1)] \<and>
   top_n (degree (simplify ex_path)) 2 = [(''B'', 2), (''C'', 2)] \<and>
   take 8 (stdout (main ex_env ex_args)) =
     [''=== Basic Statistics ==='', ''Nodes: 4'', ''Edges: 3'', ''Density: 0.500000'',
      ''Connected: True'',
      nl ''=== Top by Degree (most interactions) ==='', ''1. B: 2'', ''2. C: 2'']"
proof -
  have "take 8 (stdout (main ex_env ex_args)) =
     [''=== Basic Statistics ==='', ''Nodes: 4'', ''Edges: 3'', ''Density: 0.500000'',
      ''Connected: True'',
      nl ''=== Top by Degree (most interactions) ==='', ''1. B: 2'', ''2. C: 2'']"
    using main_ex by auto
  moreover have "g_node (simplify ex_path) =
      [(''A'', Map.empty), (''B'', Map.empty), (''C'', Map.empty), (''D'', Map.empty)]"
    by (simp add: simplify_ex_path)
  ultimately show ?thesis
    using edges_ex_path density_ex_path connected_ex_path degree_ex_path top2_ex_path
    by blast
qed

text \<open>
  C8. When plotting is requested and the run completes, \<^verbatim>\<open>spring_layout\<close> has been called
  exactly once, on the simplified graph with the given seed; both figures are drawn with
  the position mapping it returned, the nodes of the core are nodes of the full graph, so
  every node of both images has the same coordinates in both, and every label of either
  figure sits at the position of its node in that mapping.
\<close>

theorem layout_computed_once:
  assumes "path_exists env (arg_graphml a)"
    and "read_graphml env (arg_graphml a) = Inr Graw"
    and "arg_plot a"
    and "status (main env a) = Exit0"
  shows "layouts (main env a) = [(simplify Graw, arg_seed a)] \<and>
         (\<exists>full core.
            figures (main env a) = [full, core] \<and>
            fig_graph full = simplify Graw \<and>
            k_core (simplify Graw) (arg_k a) = Inr (fig_graph core) \<and>
            fig_pos full = spring_layout env (simplify Graw) (arg_seed a) \<and>
            fig_pos core = fig_pos full \<and>
            fst ` set (g_node (fig_graph core)) \<subseteq> fst ` set (g_node (fig_graph full)) \<and>
            (\<forall>(p, n) \<in> set (fig_labels full) \<union> set (fig_labels core). p = fig_pos full n))"
proof -
  have m: "main env a = run env a (simplify Graw)"
    using assms(1,2) by (rule main_reads)
  from assms(4) obtain out out' where
    r: "report_head env a (simplify Graw) = (out, None)"
    and e: "eig_section env a (simplify Graw) = (out', None)"
    unfolding m using run_outcome_cases by blast
  let ?pos = "spring_layout env (simplify Graw) (arg_seed a)"
  from plot_simplify[of Graw a env] obtain core sizes sizes_core where
    kc: "k_core (simplify Graw) (arg_k a) = Inr core" and
    p: "plot env a (simplify Graw) =
       \<lparr>stdout = [''Wrote '' @ arg_prefix a @ ''_full.png'',
                  ''Wrote '' @ arg_prefix a @ ''_kcore'' @ show_int (arg_k a) @ ''.png''],
        stderr = [],
        layouts = [(simplify Graw, arg_seed a)],
        figures = [full_figure a (simplify Graw) ?pos sizes,
                   core_figure a (arg_k a) core ?pos sizes_core],
        status = Exit0\<rparr>"
    by blast
  let ?full = "full_figure a (simplify Graw) ?pos sizes"
  let ?core = "core_figure a (arg_k a) core ?pos sizes_core"
  have l: "layouts (main env a) = [(simplify Graw, arg_seed a)]"
    and f: "figures (main env a) = [?full, ?core]"
    unfolding m run_completes[OF r e] using assms(3) p by simp_all
  have sub: "fst ` set (g_node core) \<subseteq> fst ` set (g_node (simplify Graw))"
    using kc by (rule k_core_nodes_subset)
  have lab: "\<forall>(p, n) \<in> set (fig_labels ?full) \<union> set (fig_labels ?core). p = fig_pos ?full n"
    by (auto simp: full_figure_def core_figure_def dest: labels_pos)
  have "figures (main env a) = [?full, ?core] \<and>
        fig_graph ?full = simplify Graw \<and>
        k_core (simplify Graw) (arg_k a) = Inr (fig_graph ?core) \<and>
        fig_pos ?full = ?pos \<and> fig_pos ?core = fig_pos ?full \<and>
        fst ` set (g_node (fig_graph ?core)) \<subseteq> fst ` set (g_node (fig_graph ?full)) \<and>
        (\<forall>(p, n) \<in> set (fig_labels ?full) \<union> set (fig_labels ?core). p = fig_pos ?full n)"
    using f kc sub lab by (simp add: full_figure_def core_figure_def)
  then show ?thesis
    using l by blast
qed

theorem layout_computed_once_witness:
  "path_exists ex_env (arg_graphml ex_args) \<and>
   read_graphml ex_env (arg_graphml ex_args) = Inr ex_path \<and>
   arg_plot ex_args \<and>
   status (main ex_env ex_args) = Exit0 \<and>
   layouts (main ex_env ex_args) = [(simplify ex_path, 42)] \<and>
   map fig_pos (figures (main ex_env ex_args)) =
     [spring_layout ex_env (simplify ex_path) 42, spring_layout ex_env (simplify ex_path) 42]"
proof -
  have h1: "path_exists ex_env (arg_graphml ex_args)"
    by (simp add: ex_env_def ex_args_def)
  have h2: "read_graphml ex_env (arg_graphml ex_args) = Inr ex_path"
    by (simp add: ex_env_def)
  have h3: "arg_plot ex_args" and s: "arg_seed ex_args = 42"
    by (simp_all add: ex_args_def)
  have h4: "status (main ex_env ex_args) = Exit0"
    using main_ex by auto
  from layout_computed_once[OF h1 h2 h3 h4] h1 h2 h3 h4 show ?thesis
    by (auto simp: s)
qed

text \<open>
  C10. On a simplified graph \<^verbatim>\<open>nx.core_number\<close> and \<^verbatim>\<open>nx.k_core\<close> never raise, so the
  handler of line 114 is never entered: no fallback notice is printed and \<^verbatim>\<open>args.k\<close>
  keeps the requested value. When the requested \<open>k\<close> exceeds every core number, the
  extracted core is the empty graph; the plot stage draws it all the same and names the
  second file after the requested \<open>k\<close>.
\<close>

theorem kcore_handler_unreachable:
  "\<exists>cn core.
     core_number (simplify Graw) = Inr cn \<and>
     k_core (simplify Graw) (arg_k a) = Inr core \<and>
     extract_core (simplify Graw) (arg_k a) = Inr ([], arg_k a, core) \<and>
     ((\<forall>(n, c) \<in> set cn. int c < arg_k a) \<longrightarrow> core = empty_graph) \<and>
     status (plot env a (simplify Graw)) = Exit0 \<and>
     stdout (plot env a (simplify Graw)) =
       [''Wrote '' @ arg_prefix a @ ''_full.png'',
        ''Wrote '' @ arg_prefix a @ ''_kcore'' @ show_int (arg_k a) @ ''.png''] \<and>
     map fig_file (figures (plot env a (simplify Graw))) =
       [arg_prefix a @ ''_full.png'', arg_prefix a @ ''_kcore'' @ show_int (arg_k a) @ ''.png''] \<and>
     map fig_graph (figures (plot env a (simplify Graw))) = [simplify Graw, core]"
proof -
  let ?G = "simplify Graw"
  let ?cn = "map (\<lambda>n. (n, core_of ?G n)) (map fst (g_adj ?G))"
  have ns: "\<not> has_selfloops ?G"
    by (rule no_selfloops_simplify)
  have cn: "core_number ?G = Inr ?cn"
    using ns by (simp add: core_number_def)
  from plot_simplify[of Graw a env] obtain core sizes sizes_core where
    kc: "k_core ?G (arg_k a) = Inr core" and
    p: "plot env a ?G =
       \<lparr>stdout = [''Wrote '' @ arg_prefix a @ ''_full.png'',
                  ''Wrote '' @ arg_prefix a @ ''_kcore'' @ show_int (arg_k a) @ ''.png''],
        stderr = [],
        layouts = [(?G, arg_seed a)],
        figures = [full_figure a ?G (spring_layout env ?G (arg_seed a)) sizes,
                   core_figure a (arg_k a) core (spring_layout env ?G (arg_seed a)) sizes_core],
        status = Exit0\<rparr>"
    by blast
  have ec: "extract_core ?G (arg_k a) = Inr ([], arg_k a, core)"
    using kc by (simp add: extract_core_def)
  have keys: "fst ` set (g_adj ?G) = fst ` set (g_node ?G)"
    using graph_inv_simplify[of Graw] by (simp add: graph_inv_def)
  have high: "(\<forall>(n, c) \<in> set ?cn. int c < arg_k a) \<longrightarrow> core = empty_graph"
    using k_core_too_high[OF cn _ keys, of "arg_k a"] kc by auto
  show ?thesis
    using cn kc ec high by (intro exI[of _ ?cn] exI[of _ core]) (simp add: p full_figure_def core_figure_def)
qed

theorem kcore_handler_unreachable_witness:
  "core_number (simplify ex_path) = Inr [(''A'', 1), (''B'', 1), (''C'', 1), (''D'', 1)] \<and>
   int 1 < arg_k ex_args \<and>
   k_core (simplify ex_path) (arg_k ex_args) = Inr empty_graph \<and>
   extract_core (simplify ex_path) (arg_k ex_args) = Inr ([], 20, empty_graph) \<and>
   stdout (plot ex_env ex_args (simplify ex_path)) =
     [''Wrote marvel_network_full.png'', ''Wrote marvel_network_kcore20.png'']"
proof -
  have k: "arg_k ex_args = 20" and p: "arg_prefix ex_args = ''marvel_network''"
    and s: "show_int 20 = ''20''"
    by (simp_all add: ex_args_def show_int_def digits_small digits_large)
  from kcore_handler_unreachable[of ex_path ex_args ex_env] show ?thesis
    unfolding core_number_ex_path k p s by auto
qed

end
